theory Spec2Isabelle
  imports Complex_Main
begin

section \<open>JavaScript values and numbers\<close>

text \<open>
  The script works on JavaScript values. The model keeps the primitive values a
  spreadsheet cell or a record field can hold: \<open>undefined\<close>, \<open>null\<close>, booleans,
  strings, and Numbers whose value is an integer. A \<open>JNum n\<close> stands for the Number
  with the integer value \<open>n\<close>, which a double holds exactly for \<open>\<bar>n\<bar> < 2 ^ 53\<close>.
  Strings are lists of the characters U+0000 to U+00FF (the type \<open>char\<close>, one code
  unit each); texts with other characters are outside the model.
\<close>

datatype jsval = JUndefined | JNull | JNum int | JStr string | JBool bool

text \<open>JavaScript truthiness (\<open>!v\<close>, \<open>v || d\<close>, \<open>if (v)\<close>).\<close>

fun truthy :: "jsval \<Rightarrow> bool" where
  "truthy JUndefined = False"
| "truthy JNull = False"
| "truthy (JNum n) = (n \<noteq> 0)"
| "truthy (JStr s) = (s \<noteq> [])"
| "truthy (JBool b) = b"

text \<open>\<open>a || b\<close>\<close>

definition js_or :: "jsval \<Rightarrow> jsval \<Rightarrow> jsval" where
  "js_or a b = (if truthy a then a else b)"

subsection \<open>Decimal rendering of integers\<close>

definition digit_char :: "nat \<Rightarrow> char" where
  "digit_char d = ''0123456789'' ! d"

function show_nat :: "nat \<Rightarrow> string" where
  "show_nat n =
     (if n < 10 then [digit_char n] else show_nat (n div 10) @ [digit_char (n mod 10)])"
  by pat_completeness auto
termination
  by (relation "measure id") auto

declare show_nat.simps [simp del]

text \<open>
  \<open>Number.prototype.toString\<close> on an integer-valued Number of magnitude below
  \<open>10 ^ 21\<close>: the decimal digits, after a minus sign for a negative number.
\<close>

definition show_int :: "int \<Rightarrow> string" where
  "show_int i = (if i < 0 then ''-'' @ show_nat (nat (- i)) else show_nat (nat i))"

subsection \<open>Double-precision division and \<open>toFixed(1)\<close>\<close>

text \<open>
  \<open>a / b\<close> on Numbers is the exact quotient rounded to the nearest double, ties to
  the even significand. \<open>binary_exponent m\<close> is the position of the leading bit of
  \<open>m\<close>; for a quotient \<open>q \<ge> 1\<close> (the only quotients \<open>formatViews\<close> forms) the
  double has 53 significant bits starting there. A double is modelled by its exact value.
\<close>

function binary_exponent :: "nat \<Rightarrow> nat" where
  "binary_exponent m = (if m < 2 then 0 else Suc (binary_exponent (m div 2)))"
  by pat_completeness auto
termination
  by (relation "measure id") auto

declare binary_exponent.simps [simp del]

definition round_half_even :: "real \<Rightarrow> int" where
  "round_half_even x =
     (let f = \<lfloor>x\<rfloor>; r = x - of_int f
      in if r < 1 / 2 then f else if 1 / 2 < r then f + 1 else if even f then f else f + 1)"

definition to_double :: "real \<Rightarrow> real" where
  "to_double q =
     (let e = binary_exponent (nat \<lfloor>q\<rfloor>)
      in if e \<le> 52 then of_int (round_half_even (q * 2 ^ (52 - e))) / 2 ^ (52 - e)
         else of_int (round_half_even (q / 2 ^ (e - 52))) * 2 ^ (e - 52))"

definition js_div :: "int \<Rightarrow> int \<Rightarrow> real" where
  "js_div a b = to_double (of_int a / of_int b)"

text \<open>
  \<open>x.toFixed(1)\<close> for \<open>0 \<le> x < 10 ^ 21\<close>: the integer \<open>n\<close> with \<open>n / 10\<close> closest to
  \<open>x\<close> (the larger one of two), written in decimal, padded to two digits, with the
  point before the last digit.
\<close>

definition toFixed1 :: "real \<Rightarrow> string" where
  "toFixed1 x =
     (let n = nat \<lfloor>x * 10 + 1 / 2\<rfloor>;
          m = show_nat n;
          m' = (if length m \<le> 1 then replicate (2 - length m) (CHR ''0'') @ m else m)
      in take (length m' - 1) m' @ ''.'' @ drop (length m' - 1) m')"

text \<open>\<open>s.replace(/\.0$/, '')\<close>\<close>

definition strip_dot_zero :: "string \<Rightarrow> string" where
  "strip_dot_zero s =
     (if 2 \<le> length s \<and> drop (length s - 2) s = ''.0'' then take (length s - 2) s else s)"

section \<open>View-count formatting (\<open>formatViews\<close>, script.js 9--18)\<close>

text \<open>
  The argument of \<open>formatViews\<close> and the result of the view-count fetch: \<open>undefined\<close>,
  \<open>null\<close>, \<open>NaN\<close> or a Number with an integer value (a view count).
\<close>

datatype views_value = VUndefined | VNull | VNaN | VNum int

fun formatViews :: "views_value \<Rightarrow> string" where
  "formatViews VUndefined = ''0''"
| "formatViews VNull = ''0''"
| "formatViews VNaN = ''0''"
| "formatViews (VNum views) =
     (if views = 0 then ''0''
      else if views \<ge> 1000000 then strip_dot_zero (toFixed1 (js_div views 1000000)) @ ''M''
      else if views \<ge> 1000 then strip_dot_zero (toFixed1 (js_div views 1000)) @ ''K''
      else show_int views)"

text \<open>
  The specification's wording of the rendering. The plain integer string of a number is
  its decimal writing: a non-empty run of digits, without a leading zero unless it is
  \<open>0\<close>, whose value by position is the number.
\<close>

definition digit_value :: "char \<Rightarrow> nat" where
  "digit_value c =
     (case map_of (zip ''0123456789'' [0, 1, 2, 3, 4, 5, 6, 7, 8, 9]) c of
        Some d \<Rightarrow> d
      | None \<Rightarrow> 0)"

definition decimal_value :: "string \<Rightarrow> nat" where
  "decimal_value s = foldl (\<lambda>a c. 10 * a + digit_value c) 0 s"

definition spec_decimal :: "string \<Rightarrow> nat \<Rightarrow> bool" where
  "spec_decimal s n =
     (s \<noteq> [] \<and> list_all (\<lambda>c. c \<in> set ''0123456789'') s \<and>
      (s = ''0'' \<or> hd s \<in> set ''123456789'') \<and> decimal_value s = n)"

text \<open>
  A number of tenths \<open>k\<close> with one decimal place, a trailing \<open>.0\<close> stripped: the
  decimal writing of the whole part \<open>k div 10\<close>, followed, unless the tenths digit
  \<open>k mod 10\<close> is zero, by the point and that digit.
\<close>

definition spec_one_decimal :: "nat \<Rightarrow> string \<Rightarrow> bool" where
  "spec_one_decimal k s =
     (let whole = takeWhile (\<lambda>c. c \<noteq> CHR ''.'') s;
          rest = dropWhile (\<lambda>c. c \<noteq> CHR ''.'') s
      in spec_decimal whole (k div 10) \<and>
         (if k mod 10 = 0 then rest = []
          else length rest = 2 \<and> spec_decimal (tl rest) (k mod 10)))"

section \<open>Modal layout (\<open>updateLayout\<close>, script.js 286--294 and 415--485)\<close>

datatype platform = YouTube | Vimeo

record vimeo_info =
  width :: real
  height :: real
  aspectRatio :: real

text \<open>
  Lines 286--294: the aspect ratio is \<open>16 / 9\<close> and the video is not portrait unless the
  platform is Vimeo, where both come from the fetched info.
\<close>

definition modal_aspectRatio :: "platform \<Rightarrow> vimeo_info \<Rightarrow> real" where
  "modal_aspectRatio p info = (if p = Vimeo then aspectRatio info else js_div 16 9)"

definition modal_isPortrait :: "platform \<Rightarrow> vimeo_info \<Rightarrow> bool" where
  "modal_isPortrait p info = (if p = Vimeo then aspectRatio info < 1 else False)"

text \<open>A computed CSS length: pixels (the number before \<open>'px'\<close>) or a literal.\<close>

datatype css_len = Px real | Literal string

record modal_style =
  content_width :: css_len
  content_maxWidth :: string
  content_height :: string
  content_maxHeight :: css_len
  content_padding :: string
  content_borderRadius :: string
  content_border :: string
  title_display :: string
  title_fontSize :: string
  title_marginBottom :: string
  close_width :: string
  close_height :: string
  close_fontSize :: string
  close_top :: string
  close_right :: string
  close_border :: string
  wrapper_borderRadius :: string

text \<open>The inline styles the modal is built with (lines 349--403).\<close>

definition initial_style :: modal_style where
  "initial_style =
     \<lparr> content_width = Literal ''90%'', content_maxWidth = ''800px'', content_height = '''',
       content_maxHeight = Literal '''', content_padding = ''20px'',
       content_borderRadius = ''20px'', content_border = ''4px solid white'',
       title_display = '''', title_fontSize = ''1.2rem'', title_marginBottom = ''15px'',
       close_width = ''40px'', close_height = ''40px'', close_fontSize = ''1.2rem'',
       close_top = ''-15px'', close_right = ''-15px'', close_border = ''3px solid white'',
       wrapper_borderRadius = ''10px'' \<rparr>"

datatype layout_mode = PortraitVideo | LandscapeVideoSmallScreen | DefaultLayout

text \<open>The branch \<open>updateLayout\<close> takes (lines 418--421, 444, 465).\<close>

definition layout_mode_of :: "bool \<Rightarrow> int \<Rightarrow> int \<Rightarrow> layout_mode" where
  "layout_mode_of isPortrait vw vh =
     (let isLandscapeScreen = vw > vh;
          isMobile = (vw < 768 \<or> vh < 500)
      in if isPortrait then PortraitVideo
         else if isLandscapeScreen \<and> isMobile then LandscapeVideoSmallScreen
         else DefaultLayout)"

text \<open>
  The assignments of each branch. Products and sums of Numbers are taken exactly; the
  statements below depend on the branch and on the literal styles only.
\<close>

definition updateLayout :: "bool \<Rightarrow> real \<Rightarrow> int \<Rightarrow> int \<Rightarrow> modal_style \<Rightarrow> modal_style" where
  "updateLayout isPortrait ar vw vh s =
     (case layout_mode_of isPortrait vw vh of
        PortraitVideo \<Rightarrow>
          (let maxHeight = of_int vh - 80;
               maxWidth = maxHeight * ar;
               padding = 40
           in s\<lparr> content_width := Px (min (of_int vw - 40) (maxWidth + padding)),
                 content_maxWidth := ''400px'', content_height := ''auto'',
                 content_maxHeight := Px (of_int vh - 40), content_padding := ''20px'',
                 content_borderRadius := ''20px'', content_border := ''4px solid white'',
                 title_display := ''block'', title_fontSize := ''1rem'',
                 title_marginBottom := ''10px'',
                 close_width := ''36px'', close_height := ''36px'', close_fontSize := ''1rem'',
                 close_top := ''-12px'', close_right := ''-12px'',
                 close_border := ''3px solid white'', wrapper_borderRadius := ''10px'' \<rparr>)
      | LandscapeVideoSmallScreen \<Rightarrow>
          (let padding = 16;
               availableHeight = of_int vh - 40;
               maxVideoWidth = (availableHeight - padding) * ar
           in s\<lparr> content_width := Px (min (of_int vw - 20) (maxVideoWidth + padding)),
                 content_maxWidth := ''none'', content_height := ''auto'',
                 content_maxHeight := Px (of_int vh - 20), content_padding := ''8px'',
                 content_borderRadius := ''8px'', content_border := ''2px solid white'',
                 title_display := ''none'',
                 close_width := ''24px'', close_height := ''24px'',
                 close_fontSize := ''0.8rem'', close_top := ''-6px'', close_right := ''-6px'',
                 close_border := ''2px solid white'', wrapper_borderRadius := ''6px'' \<rparr>)
      | DefaultLayout \<Rightarrow>
          s\<lparr> content_width := Literal ''90%'', content_maxWidth := ''800px'',
             content_height := ''auto'', content_maxHeight := Literal ''none'',
             content_padding := ''20px'', content_borderRadius := ''20px'',
             content_border := ''4px solid white'',
             title_display := ''block'', title_fontSize := ''1.2rem'',
             title_marginBottom := ''15px'',
             close_width := ''40px'', close_height := ''40px'', close_fontSize := ''1.2rem'',
             close_top := ''-15px'', close_right := ''-15px'',
             close_border := ''3px solid white'', wrapper_borderRadius := ''10px'' \<rparr>)"

text \<open>The layout a freshly opened modal gets from the initial \<open>updateLayout()\<close> call.\<close>

definition modal_layout :: "platform \<Rightarrow> vimeo_info \<Rightarrow> int \<Rightarrow> int \<Rightarrow> modal_style" where
  "modal_layout p info vw vh =
     updateLayout (modal_isPortrait p info) (modal_aspectRatio p info) vw vh initial_style"

section \<open>Platform resolver (script.js 42--72)\<close>

text \<open>
  The two regular expressions are matched the way \<open>String.prototype.match\<close> does: the
  leftmost start position at which the pattern matches, alternatives in the order
  written, greedy repetitions backing off one character at a time.
\<close>

definition strip_prefix :: "string \<Rightarrow> string \<Rightarrow> string option" where
  "strip_prefix p s = (if take (length p) s = p then Some (drop (length p) s) else None)"

definition orelse :: "'a option \<Rightarrow> 'a option \<Rightarrow> 'a option" where
  "orelse a b = (case a of Some x \<Rightarrow> Some x | None \<Rightarrow> b)"

text \<open>The group \<open>([^&?]+)\<close> ending the pattern: the longest run, at least one character.\<close>

definition capture_id :: "string \<Rightarrow> string option" where
  "capture_id s =
     (let run = takeWhile (\<lambda>c. c \<noteq> CHR ''&'' \<and> c \<noteq> CHR ''?'') s
      in if run = [] then None else Some run)"

text \<open>The characters \<open>.\<close> does not match (of the 8-bit range: line feed, carriage return).\<close>

definition line_terminator :: "char \<Rightarrow> bool" where
  "line_terminator c = (c = CHR 0x0A \<or> c = CHR 0x0D)"

text \<open>\<open>.+&v=([^&?]+)\<close> after \<open>watch\?\<close>: the longest \<open>.+\<close> first.\<close>

fun dot_plus_v :: "string \<Rightarrow> string option" where
  "dot_plus_v [] = None"
| "dot_plus_v (c # cs) =
     (if line_terminator c then None
      else orelse (dot_plus_v cs) (Option.bind (strip_prefix ''&v='' cs) capture_id))"

text \<open>
  The pattern
  \<open>(?:youtu\.be\/|youtube\.com\/(?:embed\/|v\/|watch\?v=|watch\?.+&v=))([^&?]+)\<close>
  tried at the start of \<open>s\<close>.
\<close>

definition youtube_match_here :: "string \<Rightarrow> string option" where
  "youtube_match_here s =
     orelse (Option.bind (strip_prefix ''youtu.be/'' s) capture_id)
       (Option.bind (strip_prefix ''youtube.com/'' s) (\<lambda>r.
          orelse (Option.bind (strip_prefix ''embed/'' r) capture_id)
         (orelse (Option.bind (strip_prefix ''v/'' r) capture_id)
         (orelse (Option.bind (strip_prefix ''watch?v='' r) capture_id)
                 (Option.bind (strip_prefix ''watch?'' r) dot_plus_v)))))"

fun youtube_search :: "string \<Rightarrow> string option" where
  "youtube_search [] = youtube_match_here []"
| "youtube_search (c # cs) = orelse (youtube_match_here (c # cs)) (youtube_search cs)"

text \<open>A URL argument: \<open>None\<close> is \<open>null\<close> or \<open>undefined\<close>, \<open>Some s\<close> a string.\<close>

definition getYouTubeId :: "string option \<Rightarrow> string option" where
  "getYouTubeId url =
     (case url of None \<Rightarrow> None
      | Some s \<Rightarrow> if s = [] then None else youtube_search s)"

definition is_digit :: "char \<Rightarrow> bool" where
  "is_digit c = (c \<in> set ''0123456789'')"

text \<open>The pattern \<open>(?:vimeo\.com\/)(\d+)\<close> tried at the start of \<open>s\<close>.\<close>

definition vimeo_match_here :: "string \<Rightarrow> string option" where
  "vimeo_match_here s =
     Option.bind (strip_prefix ''vimeo.com/'' s)
       (\<lambda>r. let run = takeWhile is_digit r in if run = [] then None else Some run)"

fun vimeo_search :: "string \<Rightarrow> string option" where
  "vimeo_search [] = vimeo_match_here []"
| "vimeo_search (c # cs) = orelse (vimeo_match_here (c # cs)) (vimeo_search cs)"

definition getVimeoId :: "string option \<Rightarrow> string option" where
  "getVimeoId url =
     (case url of None \<Rightarrow> None
      | Some s \<Rightarrow> if s = [] then None else vimeo_search s)"

record platform_ref =
  ref_platform :: platform
  ref_id :: string

text \<open>
  An id that matched is a non-empty string, so \<open>if (ytId)\<close> and \<open>if (vimeoId)\<close> test
  whether the match succeeded.
\<close>

definition getVideoPlatform :: "string option \<Rightarrow> platform_ref option" where
  "getVideoPlatform url =
     (case getYouTubeId url of
        Some ytId \<Rightarrow> Some \<lparr> ref_platform = YouTube, ref_id = ytId \<rparr>
      | None \<Rightarrow>
          (case getVimeoId url of
             Some vimeoId \<Rightarrow> Some \<lparr> ref_platform = Vimeo, ref_id = vimeoId \<rparr>
           | None \<Rightarrow> None))"

text \<open>
  The specification's wording of the recognised forms: the text \<open>marker\<close> is one of the
  YouTube markers, the last with a non-empty one-line text between \<open>watch?\<close> and \<open>&v=\<close>.
\<close>

definition spec_youtube_marker :: "string \<Rightarrow> bool" where
  "spec_youtube_marker m =
     (m = ''youtu.be/'' \<or> m = ''youtube.com/embed/'' \<or> m = ''youtube.com/v/'' \<or>
      m = ''youtube.com/watch?v='' \<or>
      (\<exists>mid. mid \<noteq> [] \<and> (\<forall>c \<in> set mid. \<not> line_terminator c) \<and>
             m = ''youtube.com/watch?'' @ mid @ ''&v=''))"

text \<open>\<open>ident\<close> is the longest run up to the next \<open>&\<close> or \<open>?\<close> in front of \<open>rest\<close>.\<close>

definition spec_id_run :: "string \<Rightarrow> string \<Rightarrow> bool" where
  "spec_id_run ident rest =
     (ident \<noteq> [] \<and> (\<forall>c \<in> set ident. c \<noteq> CHR ''&'' \<and> c \<noteq> CHR ''?'') \<and>
      (rest = [] \<or> hd rest = CHR ''&'' \<or> hd rest = CHR ''?''))"

definition spec_youtube_form :: "string \<Rightarrow> string \<Rightarrow> bool" where
  "spec_youtube_form url ident =
     (\<exists>pre m rest. url = pre @ m @ ident @ rest \<and> spec_youtube_marker m \<and>
        spec_id_run ident rest)"

definition spec_digit_run :: "string \<Rightarrow> string \<Rightarrow> bool" where
  "spec_digit_run ident rest =
     (ident \<noteq> [] \<and> (\<forall>c \<in> set ident. is_digit c) \<and> (rest = [] \<or> \<not> is_digit (hd rest)))"

definition spec_vimeo_form :: "string \<Rightarrow> string \<Rightarrow> bool" where
  "spec_vimeo_form url ident =
     (\<exists>pre rest. url = pre @ ''vimeo.com/'' @ ident @ rest \<and> spec_digit_run ident rest)"

section \<open>Metadata fetchers and enrichment (script.js 20--30, 74--84, 237--275)\<close>

text \<open>
  What the network hands a fetcher: \<open>fetch\<close> rejects, or \<open>response.json()\<close> rejects
  (the body is not JSON), or the body parses. For the views endpoint the parsed body is
  \<open>null\<close>, an object (with its \<open>views\<close> member, \<open>VUndefined\<close> when it has none), or
  another JSON value, on which \<open>.views\<close> is \<open>undefined\<close>.
\<close>

datatype views_body = BodyNull | BodyObject views_value | BodyOther

datatype views_fetch = FetchRejects | JsonRejects | Json views_body

text \<open>\<open>data.views\<close>: reading a property of \<open>null\<close> throws.\<close>

definition body_views :: "views_body \<Rightarrow> views_value option" where
  "body_views b =
     (case b of BodyNull \<Rightarrow> None | BodyObject v \<Rightarrow> Some v | BodyOther \<Rightarrow> Some VUndefined)"

fun views_truthy :: "views_value \<Rightarrow> bool" where
  "views_truthy VUndefined = False"
| "views_truthy VNull = False"
| "views_truthy VNaN = False"
| "views_truthy (VNum n) = (n \<noteq> 0)"

text \<open>
  \<open>fetchYouTubeViews\<close>: \<open>return data.views || null\<close> inside \<open>try\<close>, \<open>return null\<close>
  in \<open>catch\<close>.
\<close>

definition fetchYouTubeViews :: "views_fetch \<Rightarrow> views_value" where
  "fetchYouTubeViews r =
     (case r of
        FetchRejects \<Rightarrow> VNull
      | JsonRejects \<Rightarrow> VNull
      | Json data \<Rightarrow>
          (case body_views data of
             None \<Rightarrow> VNull
           | Some v \<Rightarrow> if views_truthy v then v else VNull))"

text \<open>
  The Vimeo thumbnail fetch: the same failures; a parsed body yields
  \<open>data[0]?.thumbnail_large || data[0]?.thumbnail_medium || null\<close>, here the two
  members as texts (\<open>None\<close> when absent); \<open>ThumbThrows\<close> is a body on which \<open>data[0]\<close>
  throws (\<open>null\<close>).
\<close>

datatype thumb_fetch = ThumbRejects | ThumbThrows | ThumbJson "string option" "string option"

definition nonempty_text :: "string option \<Rightarrow> string option" where
  "nonempty_text t = (case t of Some s \<Rightarrow> if s \<noteq> [] then Some s else None | None \<Rightarrow> None)"

definition fetchVimeoThumbnail :: "thumb_fetch \<Rightarrow> string option" where
  "fetchVimeoThumbnail r =
     (case r of
        ThumbRejects \<Rightarrow> None
      | ThumbThrows \<Rightarrow> None
      | ThumbJson large medium \<Rightarrow>
          (case nonempty_text large of Some l \<Rightarrow> Some l | None \<Rightarrow> nonempty_text medium))"

section \<open>Cards (\<open>createVideoCard\<close>, script.js 102--158)\<close>

text \<open>
  An element of class \<open>video-card\<close>: its \<open>dataset\<close>, the texts and the thumbnail
  background written through \<open>innerHTML\<close> (\<open>None\<close> where the element or attribute is
  absent, as it may be on a card of the static page or on an element that the markup of
  a cell makes), and the inline style the entrance animation sets. The background is the
  text the script writes; how a browser parses or prints it back is not modelled.
\<close>

record card =
  card_tags :: string
  card_videoUrl :: "string option"
  card_platform :: "platform option"
  card_videoId :: "string option"
  thumbnail_background :: "string option"
  card_icon :: "string option"
  card_title :: "string option"
  view_count :: "string option"
  card_opacity :: string
  card_transform :: string
  card_transition :: string

definition FALLBACK_GRADIENTS :: "(string \<times> string) list" where
  "FALLBACK_GRADIENTS =
     [(''#ff6b9d'', ''#c44dff''), (''#4de1ff'', ''#4d7cff''), (''#ffeb4d'', ''#ff9d4d''),
      (''#4dff88'', ''#4de1ff''), (''#ff4d88'', ''#ff4dcd''), (''#c44dff'', ''#4d88ff'')]"

text \<open>
  The star sign of the view-count line, U+2B50. It is no character of the alphabet: the
  three characters of its UTF-8 form stand for it. The script never reads the line.
\<close>

definition star :: string where
  "star = [CHR 0xE2, CHR 0xAD, CHR 0x90]"

datatype error = FetchFailed | InvalidResponseFormat | SyntaxError | TypeError

text \<open>
  String conversion of a value in a template literal or a \<open>dataset\<close> assignment. A
  Number is printed in decimal, as \<open>toString\<close> prints an integer of magnitude below
  \<open>10 ^ 21\<close>.
\<close>

fun js_to_string :: "jsval \<Rightarrow> string" where
  "js_to_string JUndefined = ''undefined''"
| "js_to_string JNull = ''null''"
| "js_to_string (JNum n) = show_int n"
| "js_to_string (JStr s) = s"
| "js_to_string (JBool b) = (if b then ''true'' else ''false'')"

text \<open>
  \<open>getVideoPlatform(videoUrl)\<close> on a value: a falsy value returns \<open>null\<close> at \<open>!url\<close>;
  a string is matched; a truthy Number or boolean has no \<open>match\<close> method, and the call
  throws a \<open>TypeError\<close>.
\<close>

definition platform_of_value :: "jsval \<Rightarrow> error + platform_ref option" where
  "platform_of_value u =
     (if \<not> truthy u then Inr None
      else case u of JStr s \<Rightarrow> Inr (getVideoPlatform (Some s)) | _ \<Rightarrow> Inl TypeError)"

text \<open>
  \<open>getThumbnail(videoUrl, customThumbnail)\<close>, called after \<open>getVideoPlatform\<close> returned,
  so \<open>videoUrl\<close> is falsy or a string.
\<close>

definition getThumbnail :: "jsval \<Rightarrow> jsval \<Rightarrow> string option" where
  "getThumbnail videoUrl customThumbnail =
     (if truthy customThumbnail then Some (js_to_string customThumbnail)
      else case (case videoUrl of JStr s \<Rightarrow> getYouTubeId (Some s) | _ \<Rightarrow> None) of
             Some ytId \<Rightarrow> Some (''https://img.youtube.com/vi/'' @ ytId @ ''/hqdefault.jpg'')
           | None \<Rightarrow> None)"

definition gradient_background :: "nat \<Rightarrow> string" where
  "gradient_background index =
     (let gradient = FALLBACK_GRADIENTS ! (index mod length FALLBACK_GRADIENTS)
      in ''linear-gradient(135deg, '' @ fst gradient @ '', '' @ snd gradient @ '')'')"

definition url_background :: "string \<Rightarrow> string" where
  "url_background t = ''url('' @ [CHR 0x27] @ t @ [CHR 0x27] @ '') center/cover''"

text \<open>A record built from a row: a property that was never set reads \<open>undefined\<close>.\<close>

type_synonym video = "string \<Rightarrow> jsval"

text \<open>Lines 104--157 once the platform is known: the element with its attributes and texts.\<close>

definition make_card :: "video \<Rightarrow> nat \<Rightarrow> jsval \<Rightarrow> platform_ref option \<Rightarrow> card" where
  "make_card video index videoUrl platform =
     (let thumbnail = getThumbnail videoUrl (video ''thumbnail'');
          background =
            (case thumbnail of
               Some t \<Rightarrow> url_background t
             | None \<Rightarrow> gradient_background index);
          initialViews =
            (if map_option ref_platform platform = Some YouTube then ''Loading...''
             else js_to_string (js_or (video ''views'') (JStr ''0'')))
      in \<lparr> card_tags = js_to_string (js_or (video ''tags'') (JStr [])),
           card_videoUrl = (if truthy videoUrl then Some (js_to_string videoUrl) else None),
           card_platform = map_option ref_platform platform,
           card_videoId = map_option ref_id platform,
           thumbnail_background = Some background,
           card_icon =
             (if truthy (video ''icon'') then Some (js_to_string (video ''icon'')) else None),
           card_title = Some (js_to_string (js_or (video ''title'') (JStr ''Untitled''))),
           view_count = Some (star @ '' '' @ initialViews @ '' views''),
           card_opacity = [], card_transform = [], card_transition = [] \<rparr>)"

text \<open>Line 109: \<open>video.videourl || video.videoUrl || ''\<close>.\<close>

definition video_url :: "video \<Rightarrow> jsval" where
  "video_url video = js_or (video ''videourl'') (js_or (video ''videoUrl'') (JStr []))"

definition createVideoCard :: "video \<Rightarrow> nat \<Rightarrow> error + card" where
  "createVideoCard video index =
     (let videoUrl = video_url video
      in case platform_of_value videoUrl of
           Inl e \<Rightarrow> Inl e
         | Inr platform \<Rightarrow> Inr (make_card video index videoUrl platform))"

text \<open>
  \<open>updateAllViewCounts\<close>, one card: the views fetch settles with \<open>r\<close>; the text changes
  only when the result is not \<open>null\<close> and the card has a view-count element.
\<close>

definition update_view_count :: "views_fetch \<Rightarrow> card \<Rightarrow> card" where
  "update_view_count r c =
     (let views = fetchYouTubeViews r
      in if views \<noteq> VNull then
           (case view_count c of
              Some old \<Rightarrow> c\<lparr> view_count := Some (star @ '' '' @ formatViews views @ '' views'') \<rparr>
            | None \<Rightarrow> c)
         else c)"

text \<open>
  All cards selected by \<open>.video-card[data-platform="youtube"]\<close>; \<open>net i\<close> is what the
  fetch for the card at position \<open>i\<close> settles with. Each callback touches its own card
  only, so the order in which the fetches settle does not matter.
\<close>

definition updateAllViewCounts :: "(nat \<Rightarrow> views_fetch) \<Rightarrow> card list \<Rightarrow> card list" where
  "updateAllViewCounts net cards =
     map (\<lambda>(i, c). if card_platform c = Some YouTube then update_view_count (net i) c else c)
       (enumerate 0 cards)"

text \<open>\<open>s.includes(t)\<close>\<close>

fun str_includes :: "string \<Rightarrow> string \<Rightarrow> bool" where
  "str_includes [] t = (t = [])"
| "str_includes (c # cs) t = (take (length t) (c # cs) = t \<or> str_includes cs t)"

text \<open>
  \<open>updateVimeoThumbnails\<close>, one card: whether a fetch is issued (line 266), and the card
  after the fetch settled with \<open>r\<close>.
\<close>

definition thumbnail_fetch_issued :: "card \<Rightarrow> bool" where
  "thumbnail_fetch_issued c =
     (case thumbnail_background c of
        Some bg \<Rightarrow> str_includes bg ''linear-gradient''
      | None \<Rightarrow> False)"

definition update_vimeo_thumbnail :: "thumb_fetch \<Rightarrow> card \<Rightarrow> card" where
  "update_vimeo_thumbnail r c =
     (if thumbnail_fetch_issued c then
        (case fetchVimeoThumbnail r of
           Some thumbnailUrl \<Rightarrow> c\<lparr> thumbnail_background := Some (url_background thumbnailUrl) \<rparr>
         | None \<Rightarrow> c)
      else c)"

text \<open>
  All cards selected by \<open>.video-card[data-platform="vimeo"]\<close>: the cards afterwards, and
  the positions of the cards a fetch is issued for.
\<close>

definition updateVimeoThumbnails :: "(nat \<Rightarrow> thumb_fetch) \<Rightarrow> card list \<Rightarrow> card list" where
  "updateVimeoThumbnails net cards =
     map (\<lambda>(i, c). if card_platform c = Some Vimeo then update_vimeo_thumbnail (net i) c else c)
       (enumerate 0 cards)"

definition vimeo_thumbnail_fetches :: "card list \<Rightarrow> nat list" where
  "vimeo_thumbnail_fetches cards =
     map fst (filter (\<lambda>(i, c). card_platform c = Some Vimeo \<and> thumbnail_fetch_issued c)
       (enumerate 0 cards))"

definition view_count_fetches :: "card list \<Rightarrow> nat list" where
  "view_count_fetches cards =
     map fst (filter (\<lambda>(i, c). card_platform c = Some YouTube) (enumerate 0 cards))"

section \<open>Catalog loader (\<open>loadVideosFromSheet\<close>, script.js 160--235)\<close>

subsection \<open>The callback envelope\<close>

text \<open>
  \<open>/google\.visualization\.Query\.setResponse\(([\s\S]*)\);?$/\<close>: after the prefix the
  greedy group takes the longest text that leaves \<open>)\<close> or \<open>);\<close> at the end of the input.
\<close>

definition envelope_tail :: "string \<Rightarrow> string option" where
  "envelope_tail r =
     (if 1 \<le> length r \<and> drop (length r - 1) r = '')'' then Some (take (length r - 1) r)
      else if 2 \<le> length r \<and> drop (length r - 2) r = '');'' then Some (take (length r - 2) r)
      else None)"

definition envelope_match_here :: "string \<Rightarrow> string option" where
  "envelope_match_here s =
     Option.bind (strip_prefix ''google.visualization.Query.setResponse('' s) envelope_tail"

fun envelope_search :: "string \<Rightarrow> string option" where
  "envelope_search [] = envelope_match_here []"
| "envelope_search (c # cs) = orelse (envelope_match_here (c # cs)) (envelope_search cs)"

subsection \<open>The table\<close>

text \<open>
  The parsed payload \<open>{ table: { cols: [{label}], rows: [{ c: [{v, f}] }] } }\<close>. A cell
  of a row is an object or \<open>null\<close> (\<open>None\<close>); its members \<open>v\<close> and \<open>f\<close> are
  \<open>JUndefined\<close> when absent. \<open>rows\<close> may be absent. \<open>JSON.parse\<close> itself is a parameter
  \<open>json_parse\<close> of the loader: \<open>None\<close> when it throws, \<open>Some None\<close> for a value without
  a \<open>table\<close> (reading \<open>data.table.rows\<close> throws), \<open>Some (Some t)\<close> for a table.
\<close>

record cell =
  cell_v :: jsval
  cell_f :: jsval

type_synonym row = "cell option list"

record col =
  col_label :: "string option"

record table =
  table_cols :: "col list"
  table_rows :: "row list option"

text \<open>
  \<open>toLowerCase\<close> and \<open>trim\<close> on the characters U+0000 to U+00FF. The letters with a
  lower-case form are A to Z and U+00C0 to U+00DE without the multiplication sign
  U+00D7; the lower-case form lies 0x20 higher. \<open>trim\<close> strips white space and line
  terminators: U+0009 to U+000D, the blank and the no-break space U+00A0.
\<close>

definition upper_case_letters :: string where
  "upper_case_letters =
     ''ABCDEFGHIJKLMNOPQRSTUVWXYZ'' @
     [CHR 0xC0, CHR 0xC1, CHR 0xC2, CHR 0xC3, CHR 0xC4, CHR 0xC5, CHR 0xC6, CHR 0xC7,
      CHR 0xC8, CHR 0xC9, CHR 0xCA, CHR 0xCB, CHR 0xCC, CHR 0xCD, CHR 0xCE, CHR 0xCF,
      CHR 0xD0, CHR 0xD1, CHR 0xD2, CHR 0xD3, CHR 0xD4, CHR 0xD5, CHR 0xD6,
      CHR 0xD8, CHR 0xD9, CHR 0xDA, CHR 0xDB, CHR 0xDC, CHR 0xDD, CHR 0xDE]"

definition lower_case_letters :: string where
  "lower_case_letters =
     ''abcdefghijklmnopqrstuvwxyz'' @
     [CHR 0xE0, CHR 0xE1, CHR 0xE2, CHR 0xE3, CHR 0xE4, CHR 0xE5, CHR 0xE6, CHR 0xE7,
      CHR 0xE8, CHR 0xE9, CHR 0xEA, CHR 0xEB, CHR 0xEC, CHR 0xED, CHR 0xEE, CHR 0xEF,
      CHR 0xF0, CHR 0xF1, CHR 0xF2, CHR 0xF3, CHR 0xF4, CHR 0xF5, CHR 0xF6,
      CHR 0xF8, CHR 0xF9, CHR 0xFA, CHR 0xFB, CHR 0xFC, CHR 0xFD, CHR 0xFE]"

definition to_lower_char :: "char \<Rightarrow> char" where
  "to_lower_char c =
     (case map_of (zip upper_case_letters lower_case_letters) c of
        Some l \<Rightarrow> l
      | None \<Rightarrow> c)"

definition toLowerCase :: "string \<Rightarrow> string" where
  "toLowerCase s = map to_lower_char s"

definition is_space :: "char \<Rightarrow> bool" where
  "is_space c =
     (c \<in> set [CHR 0x09, CHR 0x0A, CHR 0x0B, CHR 0x0C, CHR 0x0D, CHR 0x20, CHR 0xA0])"

definition trim :: "string \<Rightarrow> string" where
  "trim s = rev (dropWhile is_space (rev (dropWhile is_space s)))"

definition colMap :: "string list" where
  "colMap = [''title'', ''tags'', ''icon'', ''views'', ''videourl'', ''thumbnail'']"

text \<open>Lines 177--181: the label, else the positional name, else \<open>col<i>\<close>.\<close>

definition column_name :: "nat \<Rightarrow> col \<Rightarrow> string" where
  "column_name i c =
     (let label = trim (toLowerCase (case col_label c of Some l \<Rightarrow> l | None \<Rightarrow> []))
      in if label \<noteq> [] then label
         else if i < length colMap then colMap ! i
         else ''col'' @ show_nat i)"

definition column_names :: "col list \<Rightarrow> string list" where
  "column_names cs = map (\<lambda>(i, c). column_name i c) (enumerate 0 cs)"

text \<open>Line 195: the typed value, else the formatted text, else the empty string.\<close>

definition cell_value :: "cell \<Rightarrow> jsval" where
  "cell_value cl =
     (if cell_v cl \<noteq> JNull \<and> cell_v cl \<noteq> JUndefined then cell_v cl
      else js_or (cell_f cl) (JStr []))"

text \<open>Lines 192--197: \<open>cols[i]\<close> is \<open>undefined\<close> beyond the declared columns.\<close>

definition set_cell :: "string list \<Rightarrow> video \<Rightarrow> nat \<times> cell option \<Rightarrow> video" where
  "set_cell cols video ic =
     (case ic of
        (i, Some cl) \<Rightarrow> if i < length cols \<and> cols ! i \<noteq> [] then video(cols ! i := cell_value cl) else video
      | (i, None) \<Rightarrow> video)"

definition build_video :: "string list \<Rightarrow> row \<Rightarrow> video" where
  "build_video cols r = foldl (set_cell cols) (\<lambda>k. JUndefined) (enumerate 0 r)"

subsection \<open>The page\<close>

datatype log_entry =
    LogColumns "string list"
  | LogRows
  | LogVideoObject nat
  | LogLoadFailed error

datatype request = ViewsRequest nat | ThumbnailRequest nat

text \<open>
  The document has a gallery container (\<open>.video-grid\<close>). Its elements of class
  \<open>video-card\<close>, in document order, are those before the container, those inside it and
  those after it. Inside the container they come in groups: a card that lies in no other
  card, followed by the \<open>video-card\<close> elements inside that card. The page further holds
  the console, the timers the entrance animation has set (delay in ms, position of the
  card in the document when the timer was set), the fetches the enrichment has issued
  (by the position of the card in the document), and the notices shown to the user.
\<close>

type_synonym card_group = "card \<times> card list"

record page =
  cards_before :: "card list"
  grid :: "card_group list"
  cards_after :: "card list"
  console :: "log_entry list"
  timers :: "(nat \<times> nat) list"
  requests :: "request list"
  alerts :: "string list"

definition group_cards :: "card_group list \<Rightarrow> card list" where
  "group_cards gs = concat (map (\<lambda>(c, nested). c # nested) gs)"

text \<open>\<open>document.querySelectorAll('.video-card')\<close>\<close>

definition document_cards :: "page \<Rightarrow> card list" where
  "document_cards p = cards_before p @ group_cards (grid p) @ cards_after p"

text \<open>
  \<open>animateCardsIn\<close> (lines 224--235): every \<open>video-card\<close> element of the document is
  hidden, and a timer is set for it whose callback (lines 229--233) shows it again.
\<close>

definition animate_card :: "card \<Rightarrow> card" where
  "animate_card c = c\<lparr> card_opacity := ''0'', card_transform := ''translateY(20px)'' \<rparr>"

definition timer_callback :: "card \<Rightarrow> card" where
  "timer_callback c =
     c\<lparr> card_transition := ''all 0.5s ease'', card_opacity := ''1'',
        card_transform := ''translateY(0)'' \<rparr>"

definition animateCardsIn :: "page \<Rightarrow> page" where
  "animateCardsIn p =
     p\<lparr> cards_before := map animate_card (cards_before p),
        grid := map (\<lambda>(c, nested). (animate_card c, map animate_card nested)) (grid p),
        cards_after := map animate_card (cards_after p),
        timers := timers p @
          map (\<lambda>index. (100 + index * 100, index)) [0 ..< length (document_cards p)] \<rparr>"

text \<open>
  The timer set for the card at position \<open>index\<close> fires, the cards of the document being
  those the animation ran over: the callback changes that card.
\<close>

fun update_group_card :: "nat \<Rightarrow> (card \<Rightarrow> card) \<Rightarrow> card_group list \<Rightarrow> card_group list" where
  "update_group_card i f [] = []"
| "update_group_card i f ((c, nested) # gs) =
     (if i = 0 then (f c, nested) # gs
      else if i \<le> length nested then (c, nested[i - 1 := f (nested ! (i - 1))]) # gs
      else (c, nested) # update_group_card (i - 1 - length nested) f gs)"

definition timer_fires :: "nat \<Rightarrow> page \<Rightarrow> page" where
  "timer_fires index p =
     (let b = length (cards_before p); g = length (group_cards (grid p))
      in if index < b
         then p\<lparr> cards_before := (cards_before p)[index := timer_callback (cards_before p ! index)] \<rparr>
         else if index < b + g
         then p\<lparr> grid := update_group_card (index - b) timer_callback (grid p) \<rparr>
         else if index < b + g + length (cards_after p)
         then p\<lparr> cards_after := (cards_after p)[index - b - g :=
                    timer_callback (cards_after p ! (index - b - g))] \<rparr>
         else p)"

text \<open>
  The two enrichment calls of lines 213--214 up to their first \<open>await\<close>: the fetches are
  issued, for the cards \<open>querySelectorAll\<close> selects in the document; the cards change
  when a fetch settles (\<open>update_view_count\<close>, \<open>update_vimeo_thumbnail\<close>).
\<close>

definition start_enrichment :: "page \<Rightarrow> page" where
  "start_enrichment p =
     p\<lparr> requests := requests p @ map ViewsRequest (view_count_fetches (document_cards p))
                               @ map ThumbnailRequest (vimeo_thumbnail_fetches (document_cards p)) \<rparr>"

subsection \<open>The loader\<close>

text \<open>
  The \<open>forEach\<close> of lines 191--206 over the rows after the header. An exception in
  \<open>createVideoCard\<close> leaves the loop with the cards appended so far. The markup of a
  card is parsed by the browser (\<open>innerHTML\<close>, line 131), which is a parameter of the
  loader: \<open>nested_cards c\<close> are the elements of class \<open>video-card\<close> that the markup
  in the texts of the card \<open>c\<close> makes inside it, in document order (none for texts
  without such markup).
\<close>

fun render_rows ::
  "(card \<Rightarrow> card list) \<Rightarrow> string list \<Rightarrow> (nat \<times> row) list \<Rightarrow> page \<Rightarrow> error option \<times> page" where
  "render_rows nested_cards cols [] p = (None, p)"
| "render_rows nested_cards cols ((index, r) # rs) p =
     (let video = build_video cols r;
          p1 = p\<lparr> console := console p @ [LogVideoObject index] \<rparr>
      in if truthy (video ''title'') then
           (case createVideoCard video index of
              Inl e \<Rightarrow> (Some e, p1)
            | Inr c \<Rightarrow>
                render_rows nested_cards cols rs (p1\<lparr> grid := grid p1 @ [(c, nested_cards c)] \<rparr>))
         else render_rows nested_cards cols rs p1)"

datatype fetch_result = FetchRejected | ResponseText string

text \<open>The \<open>try\<close> block: the exception thrown, if any, and the page at that point.\<close>

definition load_try ::
  "(string \<Rightarrow> table option option) \<Rightarrow> (card \<Rightarrow> card list) \<Rightarrow> fetch_result \<Rightarrow> page \<Rightarrow>
     error option \<times> page" where
  "load_try json_parse nested_cards response p =
     (case response of
        FetchRejected \<Rightarrow> (Some FetchFailed, p)
      | ResponseText text \<Rightarrow>
          (case envelope_search text of
             None \<Rightarrow> (Some InvalidResponseFormat, p)
           | Some payload \<Rightarrow>
               (case json_parse payload of
                  None \<Rightarrow> (Some SyntaxError, p)
                | Some None \<Rightarrow> (Some TypeError, p)
                | Some (Some t) \<Rightarrow>
                    (let cols = column_names (table_cols t);
                         p1 = p\<lparr> console := console p @ [LogColumns cols, LogRows] \<rparr>;
                         rendered =
                           (case table_rows t of
                              Some rows \<Rightarrow>
                                if length rows > 1
                                then render_rows nested_cards cols (enumerate 0 (tl rows))
                                       (p1\<lparr> grid := [] \<rparr>)
                                else (None, p1)
                            | None \<Rightarrow> (None, p1))
                     in case rendered of
                          (Some e, p2) \<Rightarrow> (Some e, p2)
                        | (None, p2) \<Rightarrow> (None, start_enrichment (animateCardsIn p2))))))"

definition loadVideosFromSheet ::
  "(string \<Rightarrow> table option option) \<Rightarrow> (card \<Rightarrow> card list) \<Rightarrow> fetch_result \<Rightarrow> page \<Rightarrow> page" where
  "loadVideosFromSheet json_parse nested_cards response p =
     (case load_try json_parse nested_cards response p of
        (None, p') \<Rightarrow> p'
      | (Some e, p') \<Rightarrow> animateCardsIn (p'\<lparr> console := console p' @ [LogLoadFailed e] \<rparr>))"

section \<open>Modal player (\<open>showVideoPlayer\<close>, script.js 280--518)\<close>

text \<open>
  A modal element carries the number of the \<open>showVideoPlayer\<close> call that built it; its
  \<open>updateLayout\<close> and \<open>escHandler\<close> closures are named by the same number in the lists of
  registered listeners.
\<close>

record modal =
  modal_id :: nat
  modal_platform :: platform
  modal_title :: string
  modal_embedUrl :: string
  modal_isPortrait_of :: bool
  modal_aspectRatio_of :: real
  modal_css :: modal_style

text \<open>A call suspended at \<open>await fetchVimeoInfo(videoId)\<close> (line 291).\<close>

record pending_open =
  pending_id :: nat
  pending_videoId :: string
  pending_title :: jsval

text \<open>
  The part of the browser the modal code reads and writes: the \<open>.video-player-modal\<close>
  elements attached to the document, in document order; the listeners registered on
  \<open>window\<close> for \<open>resize\<close> and \<open>orientationchange\<close> and on \<open>document\<close> for \<open>keydown\<close> by
  the modal code; the suspended calls; the viewport.
\<close>

record browser =
  document_modals :: "modal list"
  resize_listeners :: "nat list"
  orientationchange_listeners :: "nat list"
  keydown_listeners :: "nat list"
  pending_opens :: "pending_open list"
  next_call :: nat
  innerWidth :: int
  innerHeight :: int

definition initial_browser :: "int \<Rightarrow> int \<Rightarrow> browser" where
  "initial_browser vw vh =
     \<lparr> document_modals = [], resize_listeners = [], orientationchange_listeners = [],
       keydown_listeners = [], pending_opens = [], next_call = 0,
       innerWidth = vw, innerHeight = vh \<rparr>"

text \<open>\<open>addEventListener\<close> ignores a listener that is registered already.\<close>

definition add_listener :: "nat \<Rightarrow> nat list \<Rightarrow> nat list" where
  "add_listener m ls = (if m \<in> set ls then ls else ls @ [m])"

text \<open>
  The replaced \<open>modal.remove\<close> of lines 495--500: both window listeners are removed, then
  the element is detached.
\<close>

definition modal_remove :: "nat \<Rightarrow> browser \<Rightarrow> browser" where
  "modal_remove m b =
     b\<lparr> resize_listeners := remove1 m (resize_listeners b),
        orientationchange_listeners := remove1 m (orientationchange_listeners b),
        document_modals := filter (\<lambda>x. modal_id x \<noteq> m) (document_modals b) \<rparr>"

definition embed_url :: "platform \<Rightarrow> string \<Rightarrow> string" where
  "embed_url p videoId =
     (if p = Vimeo then ''https://player.vimeo.com/video/'' @ videoId @ ''?autoplay=1''
      else ''https://www.youtube.com/embed/'' @ videoId @ ''?autoplay=1&rel=0'')"

text \<open>
  Lines 296--517, the call numbered \<open>m\<close> after the aspect ratio is known: the element is
  built, laid out for the current viewport, its listeners are registered, and it is
  appended to the body.
\<close>

definition build_modal :: "nat \<Rightarrow> platform \<Rightarrow> string \<Rightarrow> jsval \<Rightarrow> vimeo_info \<Rightarrow> browser \<Rightarrow> browser" where
  "build_modal m p videoId title info b =
     (let el = \<lparr> modal_id = m, modal_platform = p,
                 modal_title = js_to_string (js_or title (JStr ''Now Playing'')),
                 modal_embedUrl = embed_url p videoId,
                 modal_isPortrait_of = modal_isPortrait p info,
                 modal_aspectRatio_of = modal_aspectRatio p info,
                 modal_css = modal_layout p info (innerWidth b) (innerHeight b) \<rparr>
      in b\<lparr> resize_listeners := add_listener m (resize_listeners b),
            orientationchange_listeners := add_listener m (orientationchange_listeners b),
            keydown_listeners := add_listener m (keydown_listeners b),
            document_modals := document_modals b @ [el] \<rparr>)"

definition default_info :: vimeo_info where
  "default_info = \<lparr> width = 1920, height = 1080, aspectRatio = js_div 16 9 \<rparr>"

text \<open>
  A call of \<open>showVideoPlayer\<close>: the first modal of the document, if any, is removed
  (lines 283--284); a Vimeo call then suspends at the \<open>await\<close>, any other call runs to
  its end.
\<close>

definition showVideoPlayer :: "platform \<Rightarrow> string \<Rightarrow> jsval \<Rightarrow> browser \<Rightarrow> browser" where
  "showVideoPlayer p videoId title b =
     (let b1 = (case document_modals b of
                  [] \<Rightarrow> b
                | existing # _ \<Rightarrow> modal_remove (modal_id existing) b);
          m = next_call b1;
          b2 = b1\<lparr> next_call := m + 1 \<rparr>
      in if p = Vimeo
         then b2\<lparr> pending_opens := pending_opens b2 @
                    [\<lparr> pending_id = m, pending_videoId = videoId, pending_title = title \<rparr>] \<rparr>
         else build_modal m p videoId title default_info b2)"

text \<open>The Vimeo info of the suspended call \<open>m\<close> arrives and the call resumes.\<close>

definition vimeo_info_arrives :: "nat \<Rightarrow> vimeo_info \<Rightarrow> browser \<Rightarrow> browser" where
  "vimeo_info_arrives m info b =
     (case filter (\<lambda>q. pending_id q = m) (pending_opens b) of
        [] \<Rightarrow> b
      | q # _ \<Rightarrow>
          build_modal m Vimeo (pending_videoId q) (pending_title q) info
            (b\<lparr> pending_opens := filter (\<lambda>q. pending_id q \<noteq> m) (pending_opens b) \<rparr>))"

text \<open>
  The close button and the backdrop of modal \<open>m\<close> (lines 503, 506); only an element of
  the document can be clicked.
\<close>

definition click_close :: "nat \<Rightarrow> browser \<Rightarrow> browser" where
  "click_close m b = (if m \<in> modal_id ` set (document_modals b) then modal_remove m b else b)"

definition click_backdrop :: "nat \<Rightarrow> browser \<Rightarrow> browser" where
  "click_backdrop m b = (if m \<in> modal_id ` set (document_modals b) then modal_remove m b else b)"

text \<open>\<open>escHandler\<close> of modal \<open>m\<close> (lines 509--514).\<close>

definition escHandler :: "nat \<Rightarrow> string \<Rightarrow> browser \<Rightarrow> browser" where
  "escHandler m key b =
     (if key = ''Escape''
      then (let b1 = modal_remove m b
            in b1\<lparr> keydown_listeners := remove1 m (keydown_listeners b1) \<rparr>)
      else b)"

text \<open>A key press runs every \<open>keydown\<close> listener registered when it is dispatched.\<close>

definition keydown :: "string \<Rightarrow> browser \<Rightarrow> browser" where
  "keydown key b = fold (\<lambda>m. escHandler m key) (keydown_listeners b) b"

text \<open>A resize or an orientation change runs the registered \<open>updateLayout\<close> closures.\<close>

definition relayout :: "nat list \<Rightarrow> browser \<Rightarrow> browser" where
  "relayout ls b =
     b\<lparr> document_modals :=
          map (\<lambda>x. if modal_id x \<in> set ls
                    then x\<lparr> modal_css := updateLayout (modal_isPortrait_of x)
                              (modal_aspectRatio_of x) (innerWidth b) (innerHeight b)
                              (modal_css x) \<rparr>
                    else x)
            (document_modals b) \<rparr>"

definition resize :: "int \<Rightarrow> int \<Rightarrow> browser \<Rightarrow> browser" where
  "resize vw vh b =
     (let b1 = b\<lparr> innerWidth := vw, innerHeight := vh \<rparr> in relayout (resize_listeners b1) b1)"

definition orientationchange :: "int \<Rightarrow> int \<Rightarrow> browser \<Rightarrow> browser" where
  "orientationchange vw vh b =
     (let b1 = b\<lparr> innerWidth := vw, innerHeight := vh \<rparr>
      in relayout (orientationchange_listeners b1) b1)"

datatype event =
    Open platform string jsval
  | VimeoInfoArrives nat vimeo_info
  | ClickClose nat
  | ClickBackdrop nat
  | KeyDown string
  | Resize int int
  | OrientationChange int int

fun step :: "event \<Rightarrow> browser \<Rightarrow> browser" where
  "step (Open p videoId title) b = showVideoPlayer p videoId title b"
| "step (VimeoInfoArrives m info) b = vimeo_info_arrives m info b"
| "step (ClickClose m) b = click_close m b"
| "step (ClickBackdrop m) b = click_backdrop m b"
| "step (KeyDown key) b = keydown key b"
| "step (Resize vw vh) b = resize vw vh b"
| "step (OrientationChange vw vh) b = orientationchange vw vh b"

definition run :: "event list \<Rightarrow> browser \<Rightarrow> browser" where
  "run evs b = fold step evs b"

section \<open>Notions used in the statements\<close>

text \<open>
  The video URL of a record is a text (the empty one when the row has none): the value
  of \<open>video.videourl || video.videoUrl || ''\<close> is a string.
\<close>

definition url_is_text :: "video \<Rightarrow> bool" where
  "url_is_text video = (case video_url video of JStr s \<Rightarrow> True | _ \<Rightarrow> False)"

text \<open>
  The data rows (the rows after the header) whose record has a truthy title, each with
  its index: its position among the data rows counted from 0, which is the number of the
  row in the table less 1; the rows without a title are counted.
\<close>

definition titled_rows :: "string list \<Rightarrow> row list \<Rightarrow> (nat \<times> row) list" where
  "titled_rows cols data =
     filter (\<lambda>(i, r). truthy (build_video cols r ''title'')) (enumerate 0 data)"

text \<open>The card a row at position \<open>i\<close> is rendered as when its video URL is a text.\<close>

definition row_card :: "string list \<Rightarrow> nat \<times> row \<Rightarrow> card" where
  "row_card cols ir =
     (case ir of (i, r) \<Rightarrow>
        (let video = build_video cols r
         in make_card video i (video_url video)
              (case video_url video of JStr s \<Rightarrow> getVideoPlatform (Some s) | _ \<Rightarrow> None)))"

text \<open>A record of a Vimeo video whose custom thumbnail has \<open>linear-gradient\<close> in its name.\<close>

definition linear_gradient_video :: video where
  "linear_gradient_video =
     (\<lambda>k. JUndefined)(''title'' := JStr ''Reel'',
        ''videourl'' := JStr ''https://vimeo.com/76979871'',
        ''thumbnail'' := JStr ''https://cdn.example/linear-gradient.png'')"

text \<open>
  A page to run the loader on: two cards of the static page in the gallery container,
  the second one of a YouTube video, and a Vimeo card showing a gradient after the
  container.
\<close>

definition sample_card :: card where
  "sample_card =
     \<lparr> card_tags = ''vlog'', card_videoUrl = None, card_platform = None, card_videoId = None,
       thumbnail_background = Some ''url(a.png)'', card_icon = None, card_title = Some ''Hello'',
       view_count = Some ''12 views'', card_opacity = [], card_transform = [],
       card_transition = [] \<rparr>"

definition youtube_card :: card where
  "youtube_card =
     \<lparr> card_tags = ''music'', card_videoUrl = Some ''https://youtu.be/abc'',
       card_platform = Some YouTube, card_videoId = Some ''abc'',
       thumbnail_background = Some ''url(b.png)'', card_icon = None, card_title = Some ''Song'',
       view_count = Some ''Loading... views'', card_opacity = [], card_transform = [],
       card_transition = [] \<rparr>"

definition vimeo_card :: card where
  "vimeo_card =
     \<lparr> card_tags = ''reel'', card_videoUrl = Some ''https://vimeo.com/76979871'',
       card_platform = Some Vimeo, card_videoId = Some ''76979871'',
       thumbnail_background = Some ''linear-gradient(135deg, #ff6b9d, #c44dff)'',
       card_icon = None, card_title = Some ''Reel'', view_count = Some ''0 views'',
       card_opacity = [], card_transform = [], card_transition = [] \<rparr>"

definition sample_page :: page where
  "sample_page =
     \<lparr> cards_before = [], grid = [(sample_card, []), (youtube_card, [])],
       cards_after = [vimeo_card], console = [], timers = [], requests = [], alerts = [] \<rparr>"

text \<open>
  A browser for the samples: the title \<open><b class="video-card">Song</b>\<close> makes one
  element of class \<open>video-card\<close> inside its card; no other text of the samples holds
  markup.
\<close>

definition markup_title :: string where
  "markup_title = ''<b class='' @ [CHR 0x22] @ ''video-card'' @ [CHR 0x22] @ ''>Song</b>''"

definition markup_element :: card where
  "markup_element =
     \<lparr> card_tags = [], card_videoUrl = None, card_platform = None, card_videoId = None,
       thumbnail_background = None, card_icon = None, card_title = None, view_count = None,
       card_opacity = [], card_transform = [], card_transition = [] \<rparr>"

definition sample_browser :: "card \<Rightarrow> card list" where
  "sample_browser c = (if card_title c = Some markup_title then [markup_element] else [])"

text \<open>
  Tables to run the loader on. The label of the first column ends with a no-break space,
  the labels of the next three columns are empty, absent and blank, and the label of the
  seventh column has the capital letter U+00C9.
\<close>

definition text_cell :: "string \<Rightarrow> cell option" where
  "text_cell s = Some \<lparr> cell_v = JStr s, cell_f = JUndefined \<rparr>"

definition sample_cols :: "col list" where
  "sample_cols =
     [\<lparr> col_label = Some (''Title'' @ [CHR 0xA0]) \<rparr>, \<lparr> col_label = Some [] \<rparr>,
      \<lparr> col_label = None \<rparr>, \<lparr> col_label = Some '' '' \<rparr>, \<lparr> col_label = Some ''VideoURL'' \<rparr>,
      \<lparr> col_label = Some ''Thumbnail'' \<rparr>,
      \<lparr> col_label = Some [CHR 0xC9, CHR ''T'', CHR 0xC9] \<rparr>, \<lparr> col_label = None \<rparr>]"

definition sample_header :: row where
  "sample_header = [text_cell ''Title'', text_cell ''Tags'']"

definition row_a :: row where
  "row_a = [text_cell ''First vlog'']"

definition row_b :: row where
  "row_b = [None, text_cell ''misc'']"

definition row_c :: row where
  "row_c = [text_cell markup_title, None, None, Some \<lparr> cell_v = JNum 12, cell_f = JStr ''12'' \<rparr>,
            text_cell ''https://youtu.be/abc'']"

definition row_d :: row where
  "row_d = [text_cell ''Reel'', None, None, None, text_cell ''https://vimeo.com/76979871'', None]"

definition sample_table :: table where
  "sample_table = \<lparr> table_cols = sample_cols,
                     table_rows = Some [sample_header, row_a, row_b, row_c, row_d] \<rparr>"

definition header_only_table :: table where
  "header_only_table = \<lparr> table_cols = sample_cols, table_rows = Some [sample_header] \<rparr>"

text \<open>A table whose second data row holds a number in its video URL cell.\<close>

definition row_n :: row where
  "row_n = [text_cell ''Clip'', None, None, None, Some \<lparr> cell_v = JNum 5, cell_f = JStr ''5'' \<rparr>]"

definition number_url_table :: table where
  "number_url_table = \<lparr> table_cols = sample_cols,
                         table_rows = Some [sample_header, row_a, row_n, row_d] \<rparr>"

definition sample_text :: string where
  "sample_text = ''/*O_o*/ google.visualization.Query.setResponse({});''"

text \<open>The numbers of the modals attached to the document, in document order.\<close>

definition modal_ids :: "browser \<Rightarrow> nat list" where
  "modal_ids b = map modal_id (document_modals b)"

text \<open>What every reachable state of the modal code satisfies: the window listeners are those
  of the attached modals; every attached modal has its \<open>keydown\<close> listener registered; no
  listener is registered twice; a suspended call has no listener yet.\<close>

definition modal_invariant :: "browser \<Rightarrow> bool" where
  "modal_invariant b =
     (resize_listeners b = modal_ids b \<and>
      orientationchange_listeners b = modal_ids b \<and>
      distinct (modal_ids b) \<and>
      distinct (keydown_listeners b) \<and>
      set (modal_ids b) \<subseteq> set (keydown_listeners b) \<and>
      (\<forall>m \<in> set (keydown_listeners b). m < next_call b) \<and>
      distinct (map pending_id (pending_opens b)) \<and>
      (\<forall>q \<in> set (pending_opens b). pending_id q < next_call b \<and>
          pending_id q \<notin> set (keydown_listeners b)))"

text \<open>A sequence of events in which every Vimeo call of \<open>showVideoPlayer\<close> receives its
  video info before anything else happens.\<close>

fun settled_run :: "event list \<Rightarrow> browser \<Rightarrow> bool" where
  "settled_run [] b = True"
| "settled_run (Open p v t # evs) b =
     (if p = Vimeo
      then (case evs of
              VimeoInfoArrives m info # evs' \<Rightarrow>
                m = next_call b \<and>
                settled_run evs' (step (VimeoInfoArrives m info) (step (Open p v t) b))
            | _ \<Rightarrow> False)
      else settled_run evs (step (Open p v t) b))"
| "settled_run (ev # evs) b = settled_run evs (step ev b)"

text \<open>No call is suspended and at most one modal is attached.\<close>

definition single_modal :: "browser \<Rightarrow> bool" where
  "single_modal b = (pending_opens b = [] \<and> length (document_modals b) \<le> 1)"

text \<open>A record of a Vimeo video with an ordinary custom thumbnail.\<close>

definition plain_thumbnail_video :: video where
  "plain_thumbnail_video =
     (\<lambda>k. JUndefined)(''title'' := JStr ''Reel'',
        ''videourl'' := JStr ''https://vimeo.com/76979871'',
        ''thumbnail'' := JStr ''https://cdn.example/reel.png'')"

section \<open>Properties of the view-count formatting\<close>

subsection \<open>Evaluation on numerals\<close>

lemma binary_exponent_numeral:
  "binary_exponent (numeral k) =
     (if numeral k < (2::nat) then 0 else Suc (binary_exponent (numeral k div 2)))"
  "binary_exponent 0 = 0" "binary_exponent 1 = 0" "binary_exponent (Suc 0) = 0"
  by (simp_all add: binary_exponent.simps[of "numeral k"] binary_exponent.simps[of 0]
      binary_exponent.simps[of 1] binary_exponent.simps[of "Suc 0"])

lemma show_nat_numeral:
  "show_nat (numeral k) =
     (if numeral k < (10::nat) then [digit_char (numeral k)]
      else show_nat (numeral k div 10) @ [digit_char (numeral k mod 10)])"
  "show_nat 0 = ''0''" "show_nat 1 = ''1''" "show_nat (Suc 0) = ''1''"
  by (simp_all add: show_nat.simps[of "numeral k"] show_nat.simps[of 0] show_nat.simps[of 1]
      show_nat.simps[of "Suc 0"] digit_char_def)

lemmas formatViews_eval =
  js_div_def to_double_def round_half_even_def Let_def binary_exponent_numeral toFixed1_def
  digit_char_def show_nat_numeral strip_dot_zero_def show_int_def

subsection \<open>The rounding error of a quotient\<close>

lemma binary_exponent_le: "0 < m \<Longrightarrow> 2 ^ binary_exponent m \<le> m"
proof (induction m rule: binary_exponent.induct)
  case (1 m)
  show ?case
  proof (cases "m < 2")
    case True
    with 1(2) show ?thesis by (simp add: binary_exponent.simps[of m])
  next
    case False
    then have "0 < m div 2" by simp
    with 1(1) False have "2 ^ binary_exponent (m div 2) \<le> m div 2" by simp
    then have "2 * 2 ^ binary_exponent (m div 2) \<le> m" by simp
    with False show ?thesis by (simp add: binary_exponent.simps[of m])
  qed
qed

lemma round_half_even_error: "\<bar>of_int (round_half_even x) - x\<bar> \<le> 1 / 2"
proof -
  have "of_int \<lfloor>x\<rfloor> \<le> x" "x < of_int \<lfloor>x\<rfloor> + 1" by linarith+
  then show ?thesis
    by (auto simp: round_half_even_def Let_def)
qed

lemma to_double_error:
  assumes "1 \<le> q"
  shows "\<bar>to_double q - q\<bar> \<le> q / 2 ^ 53"
proof -
  define e where "e = binary_exponent (nat \<lfloor>q\<rfloor>)"
  have pos: "0 < nat \<lfloor>q\<rfloor>" using assms by simp
  have "2 ^ e \<le> nat \<lfloor>q\<rfloor>" unfolding e_def by (rule binary_exponent_le[OF pos])
  then have "(2::real) ^ e \<le> real (nat \<lfloor>q\<rfloor>)"
    by (metis of_nat_le_iff of_nat_numeral of_nat_power)
  also have "\<dots> \<le> q" using assms by simp
  finally have le: "(2::real) ^ e \<le> q" .
  show ?thesis
  proof (cases "e \<le> 52")
    case True
    define s :: real where "s = 2 ^ (52 - e)"
    have s: "0 < s" by (simp add: s_def)
    have td: "to_double q = of_int (round_half_even (q * s)) / s"
      using True by (simp add: to_double_def e_def[symmetric] s_def)
    have "\<bar>of_int (round_half_even (q * s)) - q * s\<bar> \<le> 1 / 2" by (rule round_half_even_error)
    then have "\<bar>of_int (round_half_even (q * s)) / s - q\<bar> \<le> 1 / 2 / s"
      using s by (simp add: field_simps abs_le_iff)
    moreover have "s * 2 ^ e = 2 ^ 52"
      using True by (simp add: s_def power_add[symmetric])
    then have "1 / 2 / s = 2 ^ e / 2 ^ 53" using s by (simp add: field_simps)
    ultimately have "\<bar>to_double q - q\<bar> \<le> 2 ^ e / 2 ^ 53" by (simp add: td)
    also have "\<dots> \<le> q / 2 ^ 53" using le by (simp add: divide_right_mono)
    finally show ?thesis .
  next
    case False
    define s :: real where "s = 2 ^ (e - 52)"
    have s: "0 < s" by (simp add: s_def)
    have td: "to_double q = of_int (round_half_even (q / s)) * s"
      using False by (simp add: to_double_def e_def[symmetric] s_def)
    have "\<bar>of_int (round_half_even (q / s)) - q / s\<bar> \<le> 1 / 2" by (rule round_half_even_error)
    then have "\<bar>of_int (round_half_even (q / s)) * s - q\<bar> \<le> s / 2"
      using s by (simp add: field_simps abs_le_iff)
    moreover have "(2::real) ^ (e - 52) * 2 ^ 52 = 2 ^ (e - 52 + 52)"
      by (simp only: power_add)
    then have "s * 2 ^ 52 = 2 ^ e"
      using False by (simp only: s_def) simp
    then have "s / 2 = 2 ^ e / 2 ^ 53" by (simp add: field_simps)
    ultimately have "\<bar>to_double q - q\<bar> \<le> 2 ^ e / 2 ^ 53" by (simp add: td)
    also have "\<dots> \<le> q / 2 ^ 53" using le by (simp add: divide_right_mono)
    finally show ?thesis .
  qed
qed


subsection \<open>One decimal place\<close>

lemma show_nat_length: "0 < length (show_nat n)"
  by (induction n rule: show_nat.induct) (simp add: show_nat.simps)

lemma digit_char_zero: "d < 10 \<Longrightarrow> (digit_char d = CHR ''0'') = (d = 0)"
proof -
  assume "d < 10"
  then have "d \<in> {0,1,2,3,4,5,6,7,8,9}" by auto
  then show ?thesis by (auto simp: digit_char_def)
qed

lemma toFixed1_two_digits:
  assumes "19 / 20 \<le> x"
  shows "toFixed1 x = show_nat (nat \<lfloor>x * 10 + 1 / 2\<rfloor> div 10) @ ''.'' @
           [digit_char (nat \<lfloor>x * 10 + 1 / 2\<rfloor> mod 10)]"
proof -
  define n where "n = nat \<lfloor>x * 10 + 1 / 2\<rfloor>"
  have "of_int 10 \<le> x * 10 + 1 / 2" using assms by simp
  then have "10 \<le> \<lfloor>x * 10 + 1 / 2\<rfloor>" by (simp only: le_floor_iff)
  then have n: "10 \<le> n" unfolding n_def by linarith
  then have sn: "show_nat n = show_nat (n div 10) @ [digit_char (n mod 10)]"
    by (simp add: show_nat.simps[of n])
  have len: "0 < length (show_nat (n div 10))" by (rule show_nat_length)
  show ?thesis
    unfolding toFixed1_def n_def[symmetric] Let_def using len by (simp add: sn)
qed

lemma strip_dot_zero_decimal:
  "d < 10 \<Longrightarrow> strip_dot_zero (s @ ''.'' @ [digit_char d]) =
     (if d = 0 then s else s @ ''.'' @ [digit_char d])"
  by (simp add: strip_dot_zero_def digit_char_zero)

subsection \<open>The decimal writing\<close>

lemma digit_value_digit_char: "d < 10 \<Longrightarrow> digit_value (digit_char d) = d"
proof -
  assume "d < 10"
  then have "d \<in> {0,1,2,3,4,5,6,7,8,9}" by auto
  then show ?thesis by (auto simp: digit_char_def digit_value_def)
qed

lemma digit_char_digit: "d < 10 \<Longrightarrow> digit_char d \<in> set ''0123456789''"
proof -
  assume "d < 10"
  then have "d \<in> {0,1,2,3,4,5,6,7,8,9}" by auto
  then show ?thesis by (auto simp: digit_char_def)
qed

lemma digit_char_positive: "0 < d \<Longrightarrow> d < 10 \<Longrightarrow> digit_char d \<in> set ''123456789''"
proof -
  assume "0 < d" "d < 10"
  then have "d \<in> {1,2,3,4,5,6,7,8,9}" by auto
  then show ?thesis by (auto simp: digit_char_def)
qed

lemma decimal_value_snoc:
  "decimal_value (s @ [c]) = 10 * decimal_value s + digit_value c"
  by (simp add: decimal_value_def)

lemma spec_decimal_show_nat: "spec_decimal (show_nat n) n"
proof (induction n rule: show_nat.induct)
  case (1 n)
  show ?case
  proof (cases "n < 10")
    case True
    then have s: "show_nat n = [digit_char n]" by (simp add: show_nat.simps[of n])
    have z: "n = 0 \<Longrightarrow> digit_char n = CHR ''0''" by (simp add: digit_char_def)
    have "[digit_char n] = ''0'' \<or> digit_char n \<in> set ''123456789''"
    proof (cases "n = 0")
      case True
      then show ?thesis using z by simp
    next
      case False
      then have "0 < n" by simp
      from digit_char_positive[OF this True] show ?thesis by blast
    qed
    then show ?thesis
      unfolding s spec_decimal_def
      using digit_char_digit[OF True] digit_value_digit_char[OF True]
      by (simp add: decimal_value_def)
  next
    case False
    then have s: "show_nat n = show_nat (n div 10) @ [digit_char (n mod 10)]"
      by (simp add: show_nat.simps[of n])
    from False have ih: "spec_decimal (show_nat (n div 10)) (n div 10)" by (rule 1)
    have pos: "0 < n div 10" using False by simp
    have m: "n mod 10 < 10" by simp
    from ih have ne: "show_nat (n div 10) \<noteq> []"
      and dg: "list_all (\<lambda>c. c \<in> set ''0123456789'') (show_nat (n div 10))"
      and ld: "show_nat (n div 10) = ''0'' \<or> hd (show_nat (n div 10)) \<in> set ''123456789''"
      and vl: "decimal_value (show_nat (n div 10)) = n div 10"
      by (simp_all add: spec_decimal_def)
    have "show_nat (n div 10) \<noteq> ''0''"
    proof
      assume "show_nat (n div 10) = ''0''"
      with vl have "n div 10 = decimal_value ''0''" by simp
      then show False using pos by (simp add: decimal_value_def digit_value_def)
    qed
    with ld have hd: "hd (show_nat (n div 10)) \<in> set ''123456789''" by blast
    have v: "decimal_value (show_nat n) = n"
      unfolding s decimal_value_snoc vl using digit_value_digit_char[OF m] by simp
    show ?thesis
      unfolding spec_decimal_def
      using ne dg hd v digit_char_digit[OF m] by (simp add: s)
  qed
qed

lemma digit_cases:
  assumes "c \<in> set ''0123456789''"
  shows "\<exists>d<10. c = digit_char d"
proof -
  from assms have "c = CHR ''0'' \<or> c = CHR ''1'' \<or> c = CHR ''2'' \<or> c = CHR ''3'' \<or>
      c = CHR ''4'' \<or> c = CHR ''5'' \<or> c = CHR ''6'' \<or> c = CHR ''7'' \<or> c = CHR ''8'' \<or>
      c = CHR ''9''"
    by simp
  moreover have "digit_char 0 = CHR ''0''" "digit_char 1 = CHR ''1''" "digit_char 2 = CHR ''2''"
    "digit_char 3 = CHR ''3''" "digit_char 4 = CHR ''4''" "digit_char 5 = CHR ''5''"
    "digit_char 6 = CHR ''6''" "digit_char 7 = CHR ''7''" "digit_char 8 = CHR ''8''"
    "digit_char 9 = CHR ''9''"
    by (simp_all add: digit_char_def)
  moreover have "(0::nat) < 10" "(1::nat) < 10" "(2::nat) < 10" "(3::nat) < 10" "(4::nat) < 10"
    "(5::nat) < 10" "(6::nat) < 10" "(7::nat) < 10" "(8::nat) < 10" "(9::nat) < 10"
    by simp_all
  ultimately show ?thesis by metis
qed

lemma positive_digit_cases:
  assumes "c \<in> set ''123456789''"
  shows "0 < digit_value c"
proof -
  from assms have "c = CHR ''1'' \<or> c = CHR ''2'' \<or> c = CHR ''3'' \<or>
      c = CHR ''4'' \<or> c = CHR ''5'' \<or> c = CHR ''6'' \<or> c = CHR ''7'' \<or> c = CHR ''8'' \<or>
      c = CHR ''9''"
    by simp
  moreover have "0 < digit_value CHR ''1''" "0 < digit_value CHR ''2''"
    "0 < digit_value CHR ''3''" "0 < digit_value CHR ''4''" "0 < digit_value CHR ''5''"
    "0 < digit_value CHR ''6''" "0 < digit_value CHR ''7''" "0 < digit_value CHR ''8''"
    "0 < digit_value CHR ''9''"
    by (simp_all add: digit_value_def)
  ultimately show ?thesis by blast
qed

lemma decimal_value_positive:
  "s \<noteq> [] \<Longrightarrow> hd s \<in> set ''123456789'' \<Longrightarrow> 0 < decimal_value s"
proof (induction s rule: rev_induct)
  case Nil
  then show ?case by simp
next
  case (snoc c xs)
  show ?case
  proof (cases "xs = []")
    case True
    with snoc.prems have "c \<in> set ''123456789''" by simp
    from positive_digit_cases[OF this] True show ?thesis by (simp add: decimal_value_def)
  next
    case False
    with snoc.prems have "hd xs \<in> set ''123456789''" by simp
    from snoc.IH[OF False this] show ?thesis by (simp add: decimal_value_snoc)
  qed
qed

text \<open>The decimal writing of a number is one text only.\<close>

lemma spec_decimal_is_show_nat: "spec_decimal s n \<Longrightarrow> s = show_nat n"
proof (induction s arbitrary: n rule: rev_induct)
  case Nil
  then show ?case by (simp add: spec_decimal_def)
next
  case (snoc c xs)
  from snoc.prems have dc: "c \<in> set ''0123456789''"
    and dx: "list_all (\<lambda>c. c \<in> set ''0123456789'') xs"
    and ld: "xs @ [c] = ''0'' \<or> hd (xs @ [c]) \<in> set ''123456789''"
    and vl: "decimal_value (xs @ [c]) = n"
    by (simp_all add: spec_decimal_def)
  from digit_cases[OF dc] obtain d where d: "d < 10" "c = digit_char d" by blast
  have dv: "digit_value c = d" unfolding d(2) by (rule digit_value_digit_char[OF d(1)])
  show ?case
  proof (cases "xs = []")
    case True
    then have "n = d" using vl dv by (simp add: decimal_value_def)
    then show ?thesis using True d by (simp add: show_nat.simps[of d])
  next
    case False
    then have "xs @ [c] \<noteq> ''0''" by simp
    with ld have "hd (xs @ [c]) \<in> set ''123456789''" by blast
    then have hx: "hd xs \<in> set ''123456789''" using False by simp
    then have "spec_decimal xs (decimal_value xs)"
      using False dx by (simp add: spec_decimal_def)
    then have ih: "xs = show_nat (decimal_value xs)" by (rule snoc.IH)
    have pos: "0 < decimal_value xs" by (rule decimal_value_positive[OF False hx])
    have n: "n = 10 * decimal_value xs + d" using vl dv by (simp add: decimal_value_snoc)
    then have "\<not> n < 10" "n div 10 = decimal_value xs" "n mod 10 = d"
      using pos d(1) by simp_all
    then have "show_nat n = show_nat (decimal_value xs) @ [digit_char d]"
      by (simp add: show_nat.simps[of n])
    then show ?thesis using ih d(2) by simp
  qed
qed

lemma spec_decimal_unique: "spec_decimal s n \<Longrightarrow> spec_decimal t n \<Longrightarrow> s = t"
  using spec_decimal_is_show_nat by blast

lemma digit_not_point: "c \<in> set ''0123456789'' \<Longrightarrow> c \<noteq> CHR ''.''"
proof
  assume "c \<in> set ''0123456789''" "c = CHR ''.''"
  then have "CHR ''.'' \<in> set ''0123456789''" by (simp only:)
  then show False by simp
qed

lemma digits_without_point:
  assumes "list_all (\<lambda>c. c \<in> set ''0123456789'') s"
  shows "takeWhile (\<lambda>c. c \<noteq> CHR ''.'') (s @ t) = s @ takeWhile (\<lambda>c. c \<noteq> CHR ''.'') t"
    and "dropWhile (\<lambda>c. c \<noteq> CHR ''.'') (s @ t) = dropWhile (\<lambda>c. c \<noteq> CHR ''.'') t"
    and "takeWhile (\<lambda>c. c \<noteq> CHR ''.'') s = s"
    and "dropWhile (\<lambda>c. c \<noteq> CHR ''.'') s = []"
proof -
  from assms have a: "\<forall>c \<in> set s. c \<noteq> CHR ''.''"
    unfolding list_all_iff using digit_not_point by blast
  then have b: "\<And>c. c \<in> set s \<Longrightarrow> c \<noteq> CHR ''.''" by blast
  show "takeWhile (\<lambda>c. c \<noteq> CHR ''.'') (s @ t) = s @ takeWhile (\<lambda>c. c \<noteq> CHR ''.'') t"
    by (rule takeWhile_append2) (rule b)
  show "dropWhile (\<lambda>c. c \<noteq> CHR ''.'') (s @ t) = dropWhile (\<lambda>c. c \<noteq> CHR ''.'') t"
    by (rule dropWhile_append2) (rule b)
  from a show "takeWhile (\<lambda>c. c \<noteq> CHR ''.'') s = s"
    by (simp only: takeWhile_eq_all_conv)
  from a show "dropWhile (\<lambda>c. c \<noteq> CHR ''.'') s = []"
    by (simp only: dropWhile_eq_Nil_conv)
qed

lemma one_decimal_of_toFixed1:
  assumes "19 / 20 \<le> x"
  shows "spec_one_decimal (nat \<lfloor>x * 10 + 1 / 2\<rfloor>) (strip_dot_zero (toFixed1 x))"
proof -
  define n where "n = nat \<lfloor>x * 10 + 1 / 2\<rfloor>"
  have d: "n mod 10 < 10" by simp
  have w: "spec_decimal (show_nat (n div 10)) (n div 10)" by (rule spec_decimal_show_nat)
  then have dg: "list_all (\<lambda>c. c \<in> set ''0123456789'') (show_nat (n div 10))"
    by (simp add: spec_decimal_def)
  have f: "spec_decimal (show_nat (n mod 10)) (n mod 10)" by (rule spec_decimal_show_nat)
  have sf: "show_nat (n mod 10) = [digit_char (n mod 10)]"
    using d by (simp add: show_nat.simps[of "n mod 10"])
  have st: "strip_dot_zero (toFixed1 x) =
      (if n mod 10 = 0 then show_nat (n div 10)
       else show_nat (n div 10) @ ''.'' @ [digit_char (n mod 10)])"
    unfolding toFixed1_two_digits[OF assms] n_def[symmetric]
    by (rule strip_dot_zero_decimal[OF d])
  show ?thesis
  proof (cases "n mod 10 = 0")
    case True
    show ?thesis
      unfolding n_def[symmetric] st spec_one_decimal_def using True w
      by (simp add: Let_def digits_without_point(3,4)[OF dg])
  next
    case False
    show ?thesis
      unfolding n_def[symmetric] st spec_one_decimal_def using False w f
      by (simp add: Let_def sf digits_without_point(1,2)[OF dg])
  qed
qed


lemma nearest_tenth:
  fixes n u :: int
  assumes u: "0 < u" and lo: "20 * u \<le> n" and hi: "n < 2 ^ 53"
  shows "19 / 20 \<le> js_div n (20 * u)"
    and "\<bar>real_of_int \<lfloor>js_div n (20 * u) * 10 + 1 / 2\<rfloor> / 10
           - real_of_int n / real_of_int (20 * u)\<bar> \<le> 1 / 20"
proof -
  define q :: real where "q = of_int n / of_int (20 * u)"
  define d where "d = to_double q"
  define k where "k = \<lfloor>d * 10 + 1 / 2\<rfloor>"
  have ur: "0 < real_of_int u" using u by simp
  have "real_of_int (20 * u) \<le> of_int n" using lo by (simp only: of_int_le_iff)
  then have q1: "1 \<le> q" using ur by (simp add: q_def field_simps)
  have err: "\<bar>d - q\<bar> \<le> q / 2 ^ 53" unfolding d_def by (rule to_double_error[OF q1])
  have "real_of_int n < 2 ^ 53" using hi by (metis of_int_less_iff of_int_numeral of_int_power)
  then have "q * (20 * real_of_int u) < 2 ^ 53" using ur by (simp add: q_def)
  then have "q / 2 ^ 53 < 1 / (20 * real_of_int u)" using ur by (simp add: field_simps)
  with err have close: "\<bar>d - q\<bar> < 1 / (20 * real_of_int u)" by linarith
  have "0 \<le> q - \<bar>d - q\<bar>"
  proof -
    have "q / 2 ^ 53 \<le> q" using q1 by (simp add: field_simps)
    with err show ?thesis by linarith
  qed
  have fl: "of_int k \<le> d * 10 + 1 / 2" "d * 10 + 1 / 2 < of_int k + 1"
    unfolding k_def by linarith+
  have qn: "q * (20 * real_of_int u) = of_int n" using ur by (simp add: q_def)
  have cl: "\<bar>d - q\<bar> * (20 * real_of_int u) < 1"
    using close ur by (simp add: field_simps)
  define a where "a = \<bar>d - q\<bar>"
  have ab: "d - q \<le> a" "- a \<le> d - q" by (simp_all add: a_def)
  have a: "real_of_int k - 10 * q \<le> 1 / 2 + 10 * a" using fl ab by linarith
  have b: "- (1 / 2 + 10 * a) < real_of_int k - 10 * q" using fl ab by linarith
  have cl: "a * (20 * real_of_int u) < 1" using cl by (simp add: a_def)
  have c: "(1 / 2 + 10 * a) * (2 * real_of_int u) < real_of_int u + 1"
    using cl by (simp add: algebra_simps)
  have u2: "0 < 2 * real_of_int u" using ur by simp
  have a': "(real_of_int k - 10 * q) * (2 * real_of_int u)
              \<le> (1 / 2 + 10 * a) * (2 * real_of_int u)"
    by (rule mult_right_mono[OF a]) (rule less_imp_le[OF u2])
  have b': "(- (1 / 2 + 10 * a)) * (2 * real_of_int u)
              < (real_of_int k - 10 * q) * (2 * real_of_int u)"
    by (rule mult_strict_right_mono[OF b u2])
  have up: "(real_of_int k - 10 * q) * (2 * real_of_int u) < real_of_int u + 1"
           "- (real_of_int u + 1) < (real_of_int k - 10 * q) * (2 * real_of_int u)"
    using a' b' c by linarith+
  have "real_of_int (2 * u * k - n) = (real_of_int k - 10 * q) * (2 * real_of_int u)"
    using qn by (simp add: algebra_simps)
  with up have "real_of_int (2 * u * k - n) < real_of_int (u + 1)"
    "real_of_int (- (u + 1)) < real_of_int (2 * u * k - n)"
    by simp_all
  then have "2 * u * k - n < u + 1" "- (u + 1) < 2 * u * k - n"
    by (simp_all only: of_int_less_iff)
  then have "2 * u * k - n \<le> u" "- u \<le> 2 * u * k - n" by simp_all
  then have "real_of_int (2 * u * k - n) \<le> real_of_int u" "real_of_int (- u) \<le> real_of_int (2 * u * k - n)"
    by (simp_all only: of_int_le_iff)
  then have "\<bar>real_of_int k * (2 * real_of_int u) - real_of_int n\<bar> \<le> real_of_int u"
    by (simp add: algebra_simps abs_le_iff)
  then have "\<bar>real_of_int k / 10 - q\<bar> \<le> 1 / 20"
    using ur by (simp add: q_def field_simps abs_le_iff)
  then show "\<bar>real_of_int \<lfloor>js_div n (20 * u) * 10 + 1 / 2\<rfloor> / 10
           - real_of_int n / real_of_int (20 * u)\<bar> \<le> 1 / 20"
    by (simp only: js_div_def q_def d_def k_def)
  have "q / 2 ^ 53 \<le> q / 20" using q1 by simp
  with err have "\<bar>d - q\<bar> \<le> q / 20" by (rule order_trans)
  then have "q - q / 20 \<le> d" by (simp only: abs_le_iff) linarith
  with q1 have "19 / 20 \<le> d" by linarith
  then show "19 / 20 \<le> js_div n (20 * u)" by (simp only: js_div_def q_def d_def)
qed


lemma formatViews_divided:
  fixes n u :: int
  assumes "0 < u" "20 * u \<le> n" "n < 2 ^ 53"
  shows "\<exists>k. \<bar>real k / 10 - real_of_int n / real_of_int (20 * u)\<bar> \<le> 1 / 20 \<and>
           spec_one_decimal k (strip_dot_zero (toFixed1 (js_div n (20 * u))))"
proof -
  define j where "j = \<lfloor>js_div n (20 * u) * 10 + 1 / 2\<rfloor>"
  have ge: "19 / 20 \<le> js_div n (20 * u)" by (rule nearest_tenth(1)[OF assms])
  then have "0 \<le> j" unfolding j_def by linarith
  then have "real (nat j) = real_of_int j" by simp
  then have "\<bar>real (nat j) / 10 - real_of_int n / real_of_int (20 * u)\<bar> \<le> 1 / 20"
    using nearest_tenth(2)[OF assms] by (simp only: j_def)
  moreover have "spec_one_decimal (nat j) (strip_dot_zero (toFixed1 (js_div n (20 * u))))"
    unfolding j_def by (rule one_decimal_of_toFixed1[OF ge])
  ultimately show ?thesis by blast
qed

lemmas spec_decimal_eval =
  spec_one_decimal_def spec_decimal_def decimal_value_def digit_value_def Let_def

text \<open>
  C4. \<open>formatViews\<close> is a function of its argument alone. \<open>NaN\<close>, \<open>null\<close>,
  \<open>undefined\<close> and 0 render as \<open>0\<close>. A view count \<open>a\<close> of at least 1,000,000 (and
  below \<open>2 ^ 53\<close>, as far as integers are Numbers) renders as \<open>a / 1000000\<close> with one
  decimal place (a number \<open>k\<close> of tenths nearest to the quotient), the decimal dropped
  when it is \<open>.0\<close>, followed by \<open>M\<close>; a count \<open>b\<close> from 1,000 on likewise with
  \<open>b / 1000\<close> and \<open>K\<close>; a smaller positive count \<open>c\<close> as its plain decimal writing,
  and a negative number \<open>d\<close> as the minus sign and the decimal writing of \<open>- d\<close>. The
  decimal writing is stated by position value (\<open>spec_decimal\<close>), not by the printing
  routine of the model; a number has one decimal writing only
  (\<open>spec_decimal_unique\<close>). The listed examples hold.
\<close>

theorem formatViews_rendering:
  "formatViews VNaN = ''0'' \<and> formatViews VNull = ''0'' \<and> formatViews VUndefined = ''0'' \<and>
   formatViews (VNum 0) = ''0'' \<and>
   (1000000 \<le> a \<and> a < 2 ^ 53 \<longrightarrow>
      (\<exists>k s. \<bar>real k / 10 - real_of_int a / 1000000\<bar> \<le> 1 / 20 \<and> spec_one_decimal k s \<and>
           formatViews (VNum a) = s @ ''M'')) \<and>
   (1000 \<le> b \<and> b < 1000000 \<longrightarrow>
      (\<exists>k s. \<bar>real k / 10 - real_of_int b / 1000\<bar> \<le> 1 / 20 \<and> spec_one_decimal k s \<and>
           formatViews (VNum b) = s @ ''K'')) \<and>
   (0 < c \<and> c < 1000 \<longrightarrow> spec_decimal (formatViews (VNum c)) (nat c)) \<and>
   (- (2 ^ 53) < d \<and> d < 0 \<longrightarrow>
      (\<exists>s. spec_decimal s (nat (- d)) \<and> formatViews (VNum d) = ''-'' @ s)) \<and>
   formatViews (VNum 999) = ''999'' \<and> formatViews (VNum 1000) = ''1K'' \<and>
   formatViews (VNum 1500) = ''1.5K'' \<and> formatViews (VNum 1000000) = ''1M'' \<and>
   formatViews (VNum 2500000) = ''2.5M''"
proof -
  have m: "1000000 \<le> a \<and> a < 2 ^ 53 \<longrightarrow>
      (\<exists>k s. \<bar>real k / 10 - real_of_int a / 1000000\<bar> \<le> 1 / 20 \<and> spec_one_decimal k s \<and>
           formatViews (VNum a) = s @ ''M'')"
  proof
    assume h: "1000000 \<le> a \<and> a < 2 ^ 53"
    then have "20 * 50000 \<le> a" "a < 2 ^ 53" by simp_all
    from formatViews_divided[OF _ this, simplified] h
    show "\<exists>k s. \<bar>real k / 10 - real_of_int a / 1000000\<bar> \<le> 1 / 20 \<and> spec_one_decimal k s \<and>
           formatViews (VNum a) = s @ ''M''"
      by auto
  qed
  have k: "1000 \<le> b \<and> b < 1000000 \<longrightarrow>
      (\<exists>k s. \<bar>real k / 10 - real_of_int b / 1000\<bar> \<le> 1 / 20 \<and> spec_one_decimal k s \<and>
           formatViews (VNum b) = s @ ''K'')"
  proof
    assume h: "1000 \<le> b \<and> b < 1000000"
    then have "20 * 50 \<le> b" "b < 2 ^ 53" by simp_all
    from formatViews_divided[OF _ this, simplified] h
    show "\<exists>k s. \<bar>real k / 10 - real_of_int b / 1000\<bar> \<le> 1 / 20 \<and> spec_one_decimal k s \<and>
           formatViews (VNum b) = s @ ''K''"
      by auto
  qed
  have s: "0 < c \<and> c < 1000 \<longrightarrow> spec_decimal (formatViews (VNum c)) (nat c)"
    using spec_decimal_show_nat[of "nat c"] by (simp add: show_int_def)
  have n: "- (2 ^ 53) < d \<and> d < 0 \<longrightarrow>
      (\<exists>s. spec_decimal s (nat (- d)) \<and> formatViews (VNum d) = ''-'' @ s)"
    using spec_decimal_show_nat[of "nat (- d)"] by (simp add: show_int_def)
  have ex: "formatViews (VNum 999) = ''999''" "formatViews (VNum 1000) = ''1K''"
   "formatViews (VNum 1500) = ''1.5K''" "formatViews (VNum 1000000) = ''1M''"
   "formatViews (VNum 2500000) = ''2.5M''"
    by (simp_all add: formatViews_eval)
  show ?thesis using m k s n ex by simp
qed

theorem formatViews_rendering_witness:
  "(1000000 \<le> (7654321::int) \<and> (7654321::int) < 2 ^ 53) \<and>
   (\<exists>k s. \<bar>real k / 10 - real_of_int 7654321 / 1000000\<bar> \<le> 1 / 20 \<and> spec_one_decimal k s \<and>
        formatViews (VNum 7654321) = s @ ''M'') \<and>
   formatViews (VNum 7654321) = ''7.7M'' \<and> spec_one_decimal 77 ''7.7'' \<and>
   (1000 \<le> (1234::int) \<and> (1234::int) < 1000000) \<and>
   (\<exists>k s. \<bar>real k / 10 - real_of_int 1234 / 1000\<bar> \<le> 1 / 20 \<and> spec_one_decimal k s \<and>
        formatViews (VNum 1234) = s @ ''K'') \<and>
   formatViews (VNum 1234) = ''1.2K'' \<and> spec_one_decimal 12 ''1.2'' \<and>
   (0 < (42::int) \<and> (42::int) < 1000) \<and> spec_decimal (formatViews (VNum 42)) (nat 42) \<and>
   formatViews (VNum 42) = ''42'' \<and>
   (- (2 ^ 53) < (- 7::int) \<and> (- 7::int) < 0) \<and>
   (\<exists>s. spec_decimal s (nat (- (- 7))) \<and> formatViews (VNum (- 7)) = ''-'' @ s) \<and>
   formatViews (VNum (- 7)) = ''-7''"
proof -
  have e: "formatViews (VNum 7654321) = ''7.7M''" "formatViews (VNum 1234) = ''1.2K''"
    "formatViews (VNum 42) = ''42''" "formatViews (VNum (- 7)) = ''-7''"
    by (simp_all add: formatViews_eval)
  have d: "spec_one_decimal 77 ''7.7''" "spec_one_decimal 12 ''1.2''"
    by (simp_all add: spec_decimal_eval)
  from formatViews_rendering[of 7654321 1234 42 "- 7"] e d show ?thesis by simp
qed

section \<open>Properties of the modal layout\<close>

lemma js_div_16_9: "\<not> js_div 16 9 < 1"
  by (simp add: formatViews_eval)

lemma layout_mode_cases:
  "(layout_mode_of p vw vh = PortraitVideo) = p"
  "(layout_mode_of p vw vh = LandscapeVideoSmallScreen) = (\<not> p \<and> vw > vh \<and> (vw < 768 \<or> vh < 500))"
  "(layout_mode_of p vw vh = DefaultLayout) = (\<not> p \<and> \<not> (vw > vh \<and> (vw < 768 \<or> vh < 500)))"
  by (auto simp: layout_mode_of_def Let_def)

lemma updateLayout_maxWidth:
  "content_maxWidth (updateLayout p ar vw vh s) =
     (case layout_mode_of p vw vh of
        PortraitVideo \<Rightarrow> ''400px''
      | LandscapeVideoSmallScreen \<Rightarrow> ''none''
      | DefaultLayout \<Rightarrow> ''800px'')"
  by (simp add: updateLayout_def Let_def split: layout_mode.split)

text \<open>
  C8. The layout branch is a function of \<open>isPortrait\<close> and the viewport: portrait-video
  exactly when \<open>isPortrait\<close>; landscape-video-on-small-screen exactly when not portrait,
  \<open>width > height\<close> and (\<open>width < 768\<close> or \<open>height < 500\<close>); default otherwise, so
  the three modes exclude each other and cover every input. The maximal width is
  \<open>400px\<close>, \<open>none\<close> and \<open>800px\<close> in the three modes. \<open>isPortrait\<close> is
  \<open>aspectRatio < 1\<close> for Vimeo; YouTube is always \<open>16 / 9\<close> and never portrait.
  \<open>(1920, 1080, 16/9)\<close> is laid out in the default mode, \<open>(400, 800, 0.5)\<close> in the
  portrait-video mode, \<open>(900, 400, 16/9)\<close> in the landscape-video-on-small-screen mode.
\<close>

theorem layout_classification:
  "(layout_mode_of p vw vh = PortraitVideo) = p \<and>
   (layout_mode_of p vw vh = LandscapeVideoSmallScreen) =
      (\<not> p \<and> vw > vh \<and> (vw < 768 \<or> vh < 500)) \<and>
   (layout_mode_of p vw vh = DefaultLayout) =
      (\<not> p \<and> \<not> (vw > vh \<and> (vw < 768 \<or> vh < 500))) \<and>
   content_maxWidth (updateLayout p ar vw vh s) =
     (case layout_mode_of p vw vh of
        PortraitVideo \<Rightarrow> ''400px''
      | LandscapeVideoSmallScreen \<Rightarrow> ''none''
      | DefaultLayout \<Rightarrow> ''800px'') \<and>
   modal_isPortrait Vimeo info = (aspectRatio info < 1) \<and>
   modal_aspectRatio Vimeo info = aspectRatio info \<and>
   modal_isPortrait YouTube info = False \<and>
   modal_aspectRatio YouTube info = js_div 16 9 \<and>
   layout_mode_of (modal_isPortrait YouTube info) 1920 1080 = DefaultLayout \<and>
   layout_mode_of (modal_isPortrait Vimeo \<lparr> width = 1920, height = 1080, aspectRatio = js_div 16 9 \<rparr>)
      1920 1080 = DefaultLayout \<and>
   content_maxWidth (modal_layout YouTube info 1920 1080) = ''800px'' \<and>
   layout_mode_of (modal_isPortrait Vimeo \<lparr> width = 540, height = 1080, aspectRatio = 0.5 \<rparr>)
      400 800 = PortraitVideo \<and>
   layout_mode_of (modal_isPortrait YouTube info) 900 400 = LandscapeVideoSmallScreen \<and>
   layout_mode_of (modal_isPortrait Vimeo \<lparr> width = 1920, height = 1080, aspectRatio = js_div 16 9 \<rparr>)
      900 400 = LandscapeVideoSmallScreen"
  by (simp add: layout_mode_cases updateLayout_maxWidth modal_isPortrait_def
      modal_aspectRatio_def modal_layout_def js_div_16_9 layout_mode_of_def)

theorem layout_classification_witness:
  "layout_mode_of True 400 800 = PortraitVideo \<and>
   layout_mode_of False 900 400 = LandscapeVideoSmallScreen \<and>
   layout_mode_of False 1920 1080 = DefaultLayout \<and>
   layout_mode_of False 400 800 = DefaultLayout \<and>
   content_maxWidth (updateLayout False (js_div 16 9) 1920 1080 initial_style) = ''800px''"
  using layout_classification[of True 400 800 "1 / 2" initial_style default_info]
    layout_classification[of False 900 400 "js_div 16 9" initial_style default_info]
    layout_classification[of False 1920 1080 "js_div 16 9" initial_style default_info]
    layout_classification[of False 400 800 "js_div 16 9" initial_style default_info]
  by simp

section \<open>Properties of the platform resolver\<close>

lemma strip_prefix_Some: "strip_prefix p s = Some r \<Longrightarrow> s = p @ r"
  by (metis append_take_drop_id option.inject option.simps(3) strip_prefix_def)

lemma strip_prefix_append [simp]: "strip_prefix p (p @ r) = Some r"
  by (simp add: strip_prefix_def)

lemma orelse_simps [simp]: "orelse None b = b" "orelse (Some x) b = Some x"
  by (simp_all add: orelse_def)

lemma orelse_eq_None: "(orelse a b = None) = (a = None \<and> b = None)"
  by (cases a) simp_all

lemma orelse_Some: "orelse a b = Some x \<Longrightarrow> a = Some x \<or> (a = None \<and> b = Some x)"
  by (cases a) simp_all

lemma capture_id_Some:
  assumes "capture_id s = Some i"
  shows "\<exists>rest. s = i @ rest \<and> spec_id_run i rest"
proof -
  let ?P = "\<lambda>c. c \<noteq> CHR ''&'' \<and> c \<noteq> CHR ''?''"
  from assms have i: "i = takeWhile ?P s" and ne: "i \<noteq> []"
    by (auto simp: capture_id_def Let_def split: if_splits)
  have s: "s = i @ dropWhile ?P s" by (simp add: i)
  have "\<forall>c \<in> set i. ?P c" unfolding i by (auto dest: set_takeWhileD)
  moreover have "dropWhile ?P s = [] \<or> \<not> ?P (hd (dropWhile ?P s))"
    using hd_dropWhile[of ?P s] by blast
  then have "dropWhile ?P s = [] \<or> hd (dropWhile ?P s) = CHR ''&'' \<or>
      hd (dropWhile ?P s) = CHR ''?''"
    by blast
  ultimately have "spec_id_run i (dropWhile ?P s)"
    using ne unfolding spec_id_run_def by blast
  with s show ?thesis by blast
qed

lemma capture_id_complete:
  assumes "spec_id_run i rest"
  shows "capture_id (i @ rest) = Some i"
proof -
  let ?P = "\<lambda>c. c \<noteq> CHR ''&'' \<and> c \<noteq> CHR ''?''"
  from assms have all: "\<forall>c \<in> set i. ?P c" and ne: "i \<noteq> []"
    and r: "rest = [] \<or> \<not> ?P (hd rest)"
    by (auto simp: spec_id_run_def)
  have "takeWhile ?P rest = []" using r by (cases rest) auto
  then have "takeWhile ?P (i @ rest) = i" using all by simp
  then show ?thesis using ne by (simp add: capture_id_def)
qed

lemma dot_plus_v_Some:
  "dot_plus_v s = Some i \<Longrightarrow>
     \<exists>mid rest. s = mid @ ''&v='' @ i @ rest \<and> mid \<noteq> [] \<and>
       (\<forall>c \<in> set mid. \<not> line_terminator c) \<and> spec_id_run i rest"
proof (induction s)
  case Nil
  then show ?case by simp
next
  case (Cons c cs)
  from Cons.prems have nl: "\<not> line_terminator c"
    and alt: "orelse (dot_plus_v cs) (Option.bind (strip_prefix ''&v='' cs) capture_id) = Some i"
    by (auto split: if_splits)
  from orelse_Some[OF alt] show ?case
  proof
    assume "dot_plus_v cs = Some i"
    from Cons.IH[OF this] obtain mid rest where
      "cs = mid @ ''&v='' @ i @ rest" "\<forall>c \<in> set mid. \<not> line_terminator c" "spec_id_run i rest"
      by blast
    then have "c # cs = (c # mid) @ ''&v='' @ i @ rest \<and> c # mid \<noteq> [] \<and>
       (\<forall>x \<in> set (c # mid). \<not> line_terminator x) \<and> spec_id_run i rest"
      using nl by simp
    then show ?thesis by blast
  next
    assume "dot_plus_v cs = None \<and> Option.bind (strip_prefix ''&v='' cs) capture_id = Some i"
    then obtain r where r: "strip_prefix ''&v='' cs = Some r" "capture_id r = Some i"
      by (auto simp: bind_eq_Some_conv)
    from capture_id_Some[OF r(2)] obtain rest where "r = i @ rest" "spec_id_run i rest" by blast
    with strip_prefix_Some[OF r(1)] have "c # cs = [c] @ ''&v='' @ i @ rest \<and> [c] \<noteq> [] \<and>
       (\<forall>x \<in> set [c]. \<not> line_terminator x) \<and> spec_id_run i rest"
      using nl by simp
    then show ?thesis by blast
  qed
qed

lemma dot_plus_v_complete:
  assumes "spec_id_run i rest"
  shows "mid \<noteq> [] \<Longrightarrow> \<forall>c \<in> set mid. \<not> line_terminator c \<Longrightarrow>
     dot_plus_v (mid @ ''&v='' @ i @ rest) \<noteq> None"
proof (induction mid)
  case Nil
  then show ?case by simp
next
  case (Cons c mid)
  show ?case
  proof (cases "mid = []")
    case True
    have "Option.bind (strip_prefix ''&v='' (''&v='' @ i @ rest)) capture_id = Some i"
      by (simp only: strip_prefix_append) (simp add: capture_id_complete[OF assms])
    then show ?thesis using Cons.prems True by (simp add: orelse_eq_None)
  next
    case False
    with Cons have "dot_plus_v (mid @ ''&v='' @ i @ rest) \<noteq> None" by simp
    then show ?thesis using Cons.prems by (simp add: orelse_eq_None)
  qed
qed


lemma spec_youtube_marker_simple:
  "spec_youtube_marker ''youtu.be/''" "spec_youtube_marker ''youtube.com/embed/''"
  "spec_youtube_marker ''youtube.com/v/''" "spec_youtube_marker ''youtube.com/watch?v=''"
  by (simp_all add: spec_youtube_marker_def)

lemma spec_youtube_marker_watch:
  "mid \<noteq> [] \<Longrightarrow> \<forall>c \<in> set mid. \<not> line_terminator c \<Longrightarrow>
     spec_youtube_marker (''youtube.com/watch?'' @ mid @ ''&v='')"
  unfolding spec_youtube_marker_def by blast

lemma marker_capture:
  assumes "s = m @ r" "capture_id r = Some i" "spec_youtube_marker m"
  shows "\<exists>m rest. s = m @ i @ rest \<and> spec_youtube_marker m \<and> spec_id_run i rest"
  using capture_id_Some[OF assms(2)] assms(1,3) by blast

lemma youtube_inner_Some:
  assumes "orelse (Option.bind (strip_prefix ''embed/'' r) capture_id)
         (orelse (Option.bind (strip_prefix ''v/'' r) capture_id)
         (orelse (Option.bind (strip_prefix ''watch?v='' r) capture_id)
                 (Option.bind (strip_prefix ''watch?'' r) dot_plus_v))) = Some i"
  shows "\<exists>m rest. ''youtube.com/'' @ r = m @ i @ rest \<and> spec_youtube_marker m \<and>
           spec_id_run i rest"
proof -
  from assms consider
      (embed) r2 where "strip_prefix ''embed/'' r = Some r2" "capture_id r2 = Some i"
    | (v) r2 where "strip_prefix ''v/'' r = Some r2" "capture_id r2 = Some i"
    | (watchv) r2 where "strip_prefix ''watch?v='' r = Some r2" "capture_id r2 = Some i"
    | (watch) r2 where "strip_prefix ''watch?'' r = Some r2" "dot_plus_v r2 = Some i"
    by (auto dest!: orelse_Some simp: bind_eq_Some_conv)
  then show ?thesis
  proof cases
    case embed
    have "''youtube.com/'' @ r = ''youtube.com/embed/'' @ r2"
      using strip_prefix_Some[OF embed(1)] by simp
    from marker_capture[OF this embed(2) spec_youtube_marker_simple(2)] show ?thesis .
  next
    case v
    have "''youtube.com/'' @ r = ''youtube.com/v/'' @ r2"
      using strip_prefix_Some[OF v(1)] by simp
    from marker_capture[OF this v(2) spec_youtube_marker_simple(3)] show ?thesis .
  next
    case watchv
    have "''youtube.com/'' @ r = ''youtube.com/watch?v='' @ r2"
      using strip_prefix_Some[OF watchv(1)] by simp
    from marker_capture[OF this watchv(2) spec_youtube_marker_simple(4)] show ?thesis .
  next
    case watch
    from dot_plus_v_Some[OF watch(2)] obtain mid rest where
      r2: "r2 = mid @ ''&v='' @ i @ rest" and mid: "mid \<noteq> []" "\<forall>c \<in> set mid. \<not> line_terminator c"
      and run: "spec_id_run i rest"
      by blast
    have "''youtube.com/'' @ r = (''youtube.com/watch?'' @ mid @ ''&v='') @ i @ rest"
      using strip_prefix_Some[OF watch(1)] r2 by simp
    with spec_youtube_marker_watch[OF mid] run show ?thesis by blast
  qed
qed

lemma youtube_match_here_Some:
  assumes "youtube_match_here s = Some i"
  shows "\<exists>m rest. s = m @ i @ rest \<and> spec_youtube_marker m \<and> spec_id_run i rest"
proof -
  from orelse_Some[OF assms[unfolded youtube_match_here_def]] consider
      (short) r where "strip_prefix ''youtu.be/'' s = Some r" "capture_id r = Some i"
    | (long) r where "strip_prefix ''youtube.com/'' s = Some r"
        "orelse (Option.bind (strip_prefix ''embed/'' r) capture_id)
         (orelse (Option.bind (strip_prefix ''v/'' r) capture_id)
         (orelse (Option.bind (strip_prefix ''watch?v='' r) capture_id)
                 (Option.bind (strip_prefix ''watch?'' r) dot_plus_v))) = Some i"
    by (auto simp: bind_eq_Some_conv)
  then show ?thesis
  proof cases
    case short
    from marker_capture[OF strip_prefix_Some[OF short(1)] short(2) spec_youtube_marker_simple(1)]
    show ?thesis .
  next
    case long
    from youtube_inner_Some[OF long(2)] strip_prefix_Some[OF long(1)] show ?thesis by simp
  qed
qed

lemma youtube_search_Some: "youtube_search s = Some i \<Longrightarrow> spec_youtube_form s i"
proof (induction s)
  case Nil
  then have "youtube_match_here [] = Some i" by simp
  from youtube_match_here_Some[OF this] show ?case
    unfolding spec_youtube_form_def by (metis append_Nil)
next
  case (Cons c cs)
  from Cons.prems have "orelse (youtube_match_here (c # cs)) (youtube_search cs) = Some i"
    by simp
  from orelse_Some[OF this] show ?case
  proof
    assume "youtube_match_here (c # cs) = Some i"
    from youtube_match_here_Some[OF this] show ?thesis
      unfolding spec_youtube_form_def by (metis append_Nil)
  next
    assume "youtube_match_here (c # cs) = None \<and> youtube_search cs = Some i"
    with Cons.IH obtain pre m rest where
      "cs = pre @ m @ i @ rest" "spec_youtube_marker m" "spec_id_run i rest"
      unfolding spec_youtube_form_def by blast
    then have "c # cs = (c # pre) @ m @ i @ rest \<and> spec_youtube_marker m \<and> spec_id_run i rest"
      by simp
    then show ?thesis unfolding spec_youtube_form_def by blast
  qed
qed


lemma youtube_match_here_simple:
  assumes "spec_id_run i rest"
  shows "youtube_match_here (''youtu.be/'' @ i @ rest) = Some i"
    and "youtube_match_here (''youtube.com/embed/'' @ i @ rest) = Some i"
    and "youtube_match_here (''youtube.com/v/'' @ i @ rest) = Some i"
    and "youtube_match_here (''youtube.com/watch?v='' @ i @ rest) = Some i"
  by (simp_all add: youtube_match_here_def strip_prefix_def capture_id_complete[OF assms])

lemma youtube_match_here_watch:
  assumes "spec_id_run i rest" "mid \<noteq> []" "\<forall>c \<in> set mid. \<not> line_terminator c"
  shows "youtube_match_here (''youtube.com/watch?'' @ mid @ ''&v='' @ i @ rest) \<noteq> None"
proof -
  define r where "r = ''watch?'' @ mid @ ''&v='' @ i @ rest"
  have "strip_prefix ''watch?'' r = Some (mid @ ''&v='' @ i @ rest)"
    unfolding r_def by (rule strip_prefix_append)
  then have "Option.bind (strip_prefix ''watch?'' r) dot_plus_v \<noteq> None"
    using dot_plus_v_complete[OF assms] by simp
  then have inner: "orelse (Option.bind (strip_prefix ''embed/'' r) capture_id)
         (orelse (Option.bind (strip_prefix ''v/'' r) capture_id)
         (orelse (Option.bind (strip_prefix ''watch?v='' r) capture_id)
                 (Option.bind (strip_prefix ''watch?'' r) dot_plus_v))) \<noteq> None"
    by (simp only: orelse_eq_None) blast
  have s: "''youtube.com/watch?'' @ mid @ ''&v='' @ i @ rest = ''youtube.com/'' @ r"
    by (simp add: r_def)
  have "strip_prefix ''youtube.com/'' (''youtube.com/'' @ r) = Some r"
    by (rule strip_prefix_append)
  then show ?thesis
    unfolding s youtube_match_here_def using inner by (simp add: orelse_eq_None)
qed

lemma youtube_match_here_complete:
  assumes "spec_youtube_marker m" "spec_id_run i rest"
  shows "youtube_match_here (m @ i @ rest) \<noteq> None"
proof -
  from assms(1) consider
      "m = ''youtu.be/''" | "m = ''youtube.com/embed/''" | "m = ''youtube.com/v/''"
    | "m = ''youtube.com/watch?v=''"
    | mid where "mid \<noteq> []" "\<forall>c \<in> set mid. \<not> line_terminator c"
        "m = ''youtube.com/watch?'' @ mid @ ''&v=''"
    unfolding spec_youtube_marker_def by blast
  then show ?thesis
  proof cases
    case 1 then show ?thesis using youtube_match_here_simple(1)[OF assms(2)] by simp
  next
    case 2 then show ?thesis using youtube_match_here_simple(2)[OF assms(2)] by simp
  next
    case 3 then show ?thesis using youtube_match_here_simple(3)[OF assms(2)] by simp
  next
    case 4 then show ?thesis using youtube_match_here_simple(4)[OF assms(2)] by simp
  next
    case 5 then show ?thesis using youtube_match_here_watch[OF assms(2) 5(1,2)] by simp
  qed
qed

lemma youtube_search_here: "youtube_match_here s = Some i \<Longrightarrow> youtube_search s = Some i"
  by (cases s) simp_all

lemma youtube_search_append:
  "youtube_match_here s \<noteq> None \<Longrightarrow> youtube_search (pre @ s) \<noteq> None"
proof (induction pre)
  case Nil
  then show ?case using youtube_search_here by fastforce
next
  case (Cons c pre)
  then show ?case by (simp add: orelse_eq_None)
qed

lemma youtube_match_here_other_start:
  "CHR ''y'' \<noteq> c \<Longrightarrow> youtube_match_here (c # cs) = None"
  by (simp add: youtube_match_here_def strip_prefix_def)

lemma youtube_search_skip:
  "CHR ''y'' \<notin> set pre \<Longrightarrow> youtube_search (pre @ s) = youtube_search s"
  by (induction pre) (simp_all add: youtube_match_here_other_start)

lemma youtube_form_complete:
  assumes "spec_youtube_form url i"
  shows "\<exists>j. getYouTubeId (Some url) = Some j \<and> spec_youtube_form url j"
proof -
  from assms obtain pre m rest where
    url: "url = pre @ m @ i @ rest" and m: "spec_youtube_marker m" and run: "spec_id_run i rest"
    unfolding spec_youtube_form_def by blast
  from run have "url \<noteq> []" unfolding url spec_id_run_def by simp
  moreover have "youtube_search url \<noteq> None"
    unfolding url using youtube_match_here_complete[OF m run] by (rule youtube_search_append)
  ultimately obtain j where "getYouTubeId (Some url) = Some j" "youtube_search url = Some j"
    by (auto simp: getYouTubeId_def)
  with youtube_search_Some show ?thesis by blast
qed

lemma youtube_none:
  assumes "\<not> (\<exists>i. spec_youtube_form url i)"
  shows "getYouTubeId (Some url) = None"
proof (cases "youtube_search url")
  case None
  then show ?thesis by (simp add: getYouTubeId_def)
next
  case (Some i)
  with youtube_search_Some assms show ?thesis by blast
qed

lemma vimeo_match_here_Some:
  assumes "vimeo_match_here s = Some i"
  shows "\<exists>rest. s = ''vimeo.com/'' @ i @ rest \<and> spec_digit_run i rest"
proof -
  from assms obtain r where r: "strip_prefix ''vimeo.com/'' s = Some r"
    and i: "i = takeWhile is_digit r" and ne: "i \<noteq> []"
    by (auto simp: vimeo_match_here_def bind_eq_Some_conv Let_def split: if_splits)
  have "\<forall>c \<in> set i. is_digit c" unfolding i by (auto dest: set_takeWhileD)
  moreover have "dropWhile is_digit r = [] \<or> \<not> is_digit (hd (dropWhile is_digit r))"
    using hd_dropWhile[of is_digit r] by blast
  ultimately have "spec_digit_run i (dropWhile is_digit r)"
    using ne unfolding spec_digit_run_def by blast
  moreover have "s = ''vimeo.com/'' @ i @ dropWhile is_digit r"
    using strip_prefix_Some[OF r] by (simp add: i)
  ultimately show ?thesis by blast
qed

lemma vimeo_match_here_complete:
  assumes "spec_digit_run i rest"
  shows "vimeo_match_here (''vimeo.com/'' @ i @ rest) = Some i"
proof -
  from assms have all: "\<forall>c \<in> set i. is_digit c" and ne: "i \<noteq> []"
    and r: "rest = [] \<or> \<not> is_digit (hd rest)"
    by (auto simp: spec_digit_run_def)
  have "takeWhile is_digit rest = []" using r by (cases rest) auto
  then have "takeWhile is_digit (i @ rest) = i" using all by simp
  moreover have "strip_prefix ''vimeo.com/'' (''vimeo.com/'' @ i @ rest) = Some (i @ rest)"
    by (rule strip_prefix_append)
  ultimately show ?thesis using ne unfolding vimeo_match_here_def by (simp add: Let_def)
qed

lemma vimeo_search_Some: "vimeo_search s = Some i \<Longrightarrow> spec_vimeo_form s i"
proof (induction s)
  case Nil
  then have "vimeo_match_here [] = Some i" by simp
  from vimeo_match_here_Some[OF this] show ?case
    unfolding spec_vimeo_form_def by (metis append_Nil)
next
  case (Cons c cs)
  from Cons.prems have "orelse (vimeo_match_here (c # cs)) (vimeo_search cs) = Some i"
    by simp
  from orelse_Some[OF this] show ?case
  proof
    assume "vimeo_match_here (c # cs) = Some i"
    from vimeo_match_here_Some[OF this] show ?thesis
      unfolding spec_vimeo_form_def by (metis append_Nil)
  next
    assume "vimeo_match_here (c # cs) = None \<and> vimeo_search cs = Some i"
    with Cons.IH obtain pre rest where
      "cs = pre @ ''vimeo.com/'' @ i @ rest" "spec_digit_run i rest"
      unfolding spec_vimeo_form_def by blast
    then have "c # cs = (c # pre) @ ''vimeo.com/'' @ i @ rest \<and> spec_digit_run i rest"
      by simp
    then show ?thesis unfolding spec_vimeo_form_def by blast
  qed
qed

lemma vimeo_search_append:
  "vimeo_match_here s \<noteq> None \<Longrightarrow> vimeo_search (pre @ s) \<noteq> None"
proof (induction pre)
  case Nil
  then show ?case by (cases s) auto
next
  case (Cons c pre)
  then show ?case by (simp add: orelse_eq_None)
qed

lemma vimeo_form_complete:
  assumes "spec_vimeo_form url i"
  shows "\<exists>j. getVimeoId (Some url) = Some j \<and> spec_vimeo_form url j"
proof -
  from assms obtain pre rest where
    url: "url = pre @ ''vimeo.com/'' @ i @ rest" and run: "spec_digit_run i rest"
    unfolding spec_vimeo_form_def by blast
  have "url \<noteq> []" unfolding url by simp
  moreover have "vimeo_match_here (''vimeo.com/'' @ i @ rest) \<noteq> None"
    using vimeo_match_here_complete[OF run] by simp
  then have "vimeo_search url \<noteq> None" unfolding url by (rule vimeo_search_append)
  ultimately obtain j where "getVimeoId (Some url) = Some j" "vimeo_search url = Some j"
    by (auto simp: getVimeoId_def)
  with vimeo_search_Some show ?thesis by blast
qed

lemma vimeo_none:
  assumes "\<not> (\<exists>i. spec_vimeo_form url i)"
  shows "getVimeoId (Some url) = None"
proof (cases "vimeo_search url")
  case None
  then show ?thesis by (simp add: getVimeoId_def)
next
  case (Some i)
  with vimeo_search_Some assms show ?thesis by blast
qed


lemma spec_youtube_form_nonempty: "spec_youtube_form url i \<Longrightarrow> url \<noteq> []"
  by (auto simp: spec_youtube_form_def spec_id_run_def)

lemma youtube_exact:
  assumes "CHR ''y'' \<notin> set pre" "spec_id_run i rest"
    "m = ''youtu.be/'' \<or> m = ''youtube.com/embed/'' \<or> m = ''youtube.com/v/'' \<or>
     m = ''youtube.com/watch?v=''"
  shows "getYouTubeId (Some (pre @ m @ i @ rest)) = Some i"
proof -
  have "youtube_match_here (m @ i @ rest) = Some i"
    using assms(3) youtube_match_here_simple[OF assms(2)] by blast
  then have "youtube_search (m @ i @ rest) = Some i" by (rule youtube_search_here)
  then have "youtube_search (pre @ m @ i @ rest) = Some i"
    using youtube_search_skip[OF assms(1)] by simp
  moreover have "pre @ m @ i @ rest \<noteq> []" using assms(2) by (simp add: spec_id_run_def)
  ultimately show ?thesis by (simp add: getYouTubeId_def)
qed


lemmas resolver_eval =
  getVideoPlatform_def getYouTubeId_def getVimeoId_def youtube_match_here_def
  vimeo_match_here_def strip_prefix_def capture_id_def line_terminator_def is_digit_def Let_def

text \<open>
  C5. For every URL text: if it has one of the YouTube forms (a marker \<open>youtu.be/\<close>,
  \<open>youtube.com/embed/\<close>, \<open>youtube.com/v/\<close>, \<open>youtube.com/watch?v=\<close> or
  \<open>youtube.com/watch?...&v=\<close> followed by a non-empty run of characters other than
  \<open>&\<close> and \<open>?\<close> which ends at the next \<open>&\<close> or \<open>?\<close> or at the end), the resolver
  returns the platform \<open>youtube\<close> with such a run as id, whether or not a Vimeo form is
  present as well; otherwise, if it contains \<open>vimeo.com/\<close> followed by a maximal
  non-empty run of digits, it returns \<open>vimeo\<close> with such a run; otherwise \<open>null\<close>.
  When nothing in front of one of the four fixed markers can start a match, the id is
  exactly the run behind that marker. The empty text and \<open>null\<close> give \<open>null\<close>;
  \<open>vimeo.com/76979871\<close> gives the id \<open>76979871\<close>.
\<close>

theorem getVideoPlatform_resolution:
  "((\<exists>i. spec_youtube_form url i) \<longrightarrow>
      (\<exists>i. getVideoPlatform (Some url) = Some \<lparr> ref_platform = YouTube, ref_id = i \<rparr> \<and>
           spec_youtube_form url i)) \<and>
   (\<not> (\<exists>i. spec_youtube_form url i) \<and> (\<exists>i. spec_vimeo_form url i) \<longrightarrow>
      (\<exists>i. getVideoPlatform (Some url) = Some \<lparr> ref_platform = Vimeo, ref_id = i \<rparr> \<and>
           spec_vimeo_form url i)) \<and>
   (\<not> (\<exists>i. spec_youtube_form url i) \<and> \<not> (\<exists>i. spec_vimeo_form url i) \<longrightarrow>
      getVideoPlatform (Some url) = None) \<and>
   (CHR ''y'' \<notin> set pre \<and> spec_id_run ident rest \<and>
    (m = ''youtu.be/'' \<or> m = ''youtube.com/embed/'' \<or> m = ''youtube.com/v/'' \<or>
     m = ''youtube.com/watch?v='') \<longrightarrow>
      getVideoPlatform (Some (pre @ m @ ident @ rest)) =
        Some \<lparr> ref_platform = YouTube, ref_id = ident \<rparr>) \<and>
   getVideoPlatform (Some []) = None \<and> getVideoPlatform None = None \<and>
   getVideoPlatform (Some ''vimeo.com/76979871'') =
     Some \<lparr> ref_platform = Vimeo, ref_id = ''76979871'' \<rparr> \<and>
   getVideoPlatform (Some ''https://example.com/video'') = None \<and>
   getVideoPlatform (Some ''https://www.youtube.com/watch?list=PL1&v=abc&t=5'') =
     Some \<lparr> ref_platform = YouTube, ref_id = ''abc'' \<rparr>"
proof -
  have yt: "(\<exists>i. spec_youtube_form url i) \<longrightarrow>
      (\<exists>i. getVideoPlatform (Some url) = Some \<lparr> ref_platform = YouTube, ref_id = i \<rparr> \<and>
           spec_youtube_form url i)"
  proof
    assume "\<exists>i. spec_youtube_form url i"
    then obtain i where "spec_youtube_form url i" ..
    from youtube_form_complete[OF this] obtain j where
      "getYouTubeId (Some url) = Some j" "spec_youtube_form url j" by blast
    then show "\<exists>i. getVideoPlatform (Some url) = Some \<lparr> ref_platform = YouTube, ref_id = i \<rparr> \<and>
           spec_youtube_form url i"
      by (auto simp: getVideoPlatform_def)
  qed
  have vm: "\<not> (\<exists>i. spec_youtube_form url i) \<and> (\<exists>i. spec_vimeo_form url i) \<longrightarrow>
      (\<exists>i. getVideoPlatform (Some url) = Some \<lparr> ref_platform = Vimeo, ref_id = i \<rparr> \<and>
           spec_vimeo_form url i)"
  proof
    assume h: "\<not> (\<exists>i. spec_youtube_form url i) \<and> (\<exists>i. spec_vimeo_form url i)"
    then obtain i where "spec_vimeo_form url i" by blast
    from vimeo_form_complete[OF this] obtain j where
      "getVimeoId (Some url) = Some j" "spec_vimeo_form url j" by blast
    moreover from h have "getYouTubeId (Some url) = None" using youtube_none by blast
    ultimately show "\<exists>i. getVideoPlatform (Some url) = Some \<lparr> ref_platform = Vimeo, ref_id = i \<rparr> \<and>
           spec_vimeo_form url i"
      by (auto simp: getVideoPlatform_def)
  qed
  have no: "\<not> (\<exists>i. spec_youtube_form url i) \<and> \<not> (\<exists>i. spec_vimeo_form url i) \<longrightarrow>
      getVideoPlatform (Some url) = None"
    using youtube_none[of url] vimeo_none[of url] by (auto simp: getVideoPlatform_def)
  have ex: "CHR ''y'' \<notin> set pre \<and> spec_id_run ident rest \<and>
    (m = ''youtu.be/'' \<or> m = ''youtube.com/embed/'' \<or> m = ''youtube.com/v/'' \<or>
     m = ''youtube.com/watch?v='') \<longrightarrow>
      getVideoPlatform (Some (pre @ m @ ident @ rest)) =
        Some \<lparr> ref_platform = YouTube, ref_id = ident \<rparr>"
    using youtube_exact[of pre ident rest m] by (auto simp: getVideoPlatform_def)
  have e1: "getVideoPlatform (Some []) = None" "getVideoPlatform None = None"
    by (simp_all add: resolver_eval)
  have e2: "getVideoPlatform (Some ''vimeo.com/76979871'') =
     Some \<lparr> ref_platform = Vimeo, ref_id = ''76979871'' \<rparr>"
    by (simp add: resolver_eval)
  have e3: "getVideoPlatform (Some ''https://example.com/video'') = None"
    by (simp add: resolver_eval)
  have e4: "getVideoPlatform (Some ''https://www.youtube.com/watch?list=PL1&v=abc&t=5'') =
     Some \<lparr> ref_platform = YouTube, ref_id = ''abc'' \<rparr>"
    by (simp add: resolver_eval)
  from yt vm no ex e1 e2 e3 e4 show ?thesis by blast
qed

theorem getVideoPlatform_resolution_witness:
  "(\<exists>i. spec_youtube_form ''https://youtu.be/abc?t=1'' i) \<and>
   getVideoPlatform (Some ''https://youtu.be/abc?t=1'') =
     Some \<lparr> ref_platform = YouTube, ref_id = ''abc'' \<rparr> \<and>
   \<not> (\<exists>i. spec_youtube_form ''https://vimeo.com/76979871?x'' i) \<and>
   (\<exists>i. spec_vimeo_form ''https://vimeo.com/76979871?x'' i) \<and>
   getVideoPlatform (Some ''https://vimeo.com/76979871?x'') =
     Some \<lparr> ref_platform = Vimeo, ref_id = ''76979871'' \<rparr> \<and>
   \<not> (\<exists>i. spec_youtube_form ''https://example.com/'' i) \<and>
   \<not> (\<exists>i. spec_vimeo_form ''https://example.com/'' i) \<and>
   getVideoPlatform (Some ''https://example.com/'') = None \<and>
   CHR ''y'' \<notin> set ''https://www.'' \<and> spec_id_run ''dQw4'' ''&t=42'' \<and>
   getVideoPlatform (Some (''https://www.'' @ ''youtube.com/watch?v='' @ ''dQw4'' @ ''&t=42'')) =
     Some \<lparr> ref_platform = YouTube, ref_id = ''dQw4'' \<rparr>"
proof -
  have run: "spec_id_run ''abc'' ''?t=1''" by (simp add: spec_id_run_def)
  have "''https://youtu.be/abc?t=1'' = ''https://'' @ ''youtu.be/'' @ ''abc'' @ ''?t=1''" by simp
  with run spec_youtube_marker_simple(1)
  have y: "\<exists>i. spec_youtube_form ''https://youtu.be/abc?t=1'' i"
    unfolding spec_youtube_form_def by blast
  have drun: "spec_digit_run ''76979871'' ''?x''" by (simp add: spec_digit_run_def is_digit_def)
  have "''https://vimeo.com/76979871?x'' = ''https://'' @ ''vimeo.com/'' @ ''76979871'' @ ''?x''"
    by simp
  with drun have v: "\<exists>i. spec_vimeo_form ''https://vimeo.com/76979871?x'' i"
    unfolding spec_vimeo_form_def by blast
  have "getYouTubeId (Some ''https://vimeo.com/76979871?x'') = None"
    by (simp add: resolver_eval)
  with youtube_form_complete have ny: "\<not> (\<exists>i. spec_youtube_form ''https://vimeo.com/76979871?x'' i)"
    by fastforce
  have "getYouTubeId (Some ''https://example.com/'') = None"
    "getVimeoId (Some ''https://example.com/'') = None"
    by (simp_all add: resolver_eval)
  with youtube_form_complete vimeo_form_complete
  have nn: "\<not> (\<exists>i. spec_youtube_form ''https://example.com/'' i)"
    "\<not> (\<exists>i. spec_vimeo_form ''https://example.com/'' i)"
    by fastforce+
  have h4: "CHR ''y'' \<notin> set ''https://www.''" "spec_id_run ''dQw4'' ''&t=42''"
    by (simp_all add: spec_id_run_def)
  have r1: "getVideoPlatform (Some ''https://youtu.be/abc?t=1'') =
     Some \<lparr> ref_platform = YouTube, ref_id = ''abc'' \<rparr>"
    using getVideoPlatform_resolution[of "''https://youtu.be/abc?t=1''"] y
    by (simp add: resolver_eval)
  have r2: "getVideoPlatform (Some ''https://vimeo.com/76979871?x'') =
     Some \<lparr> ref_platform = Vimeo, ref_id = ''76979871'' \<rparr>"
    using getVideoPlatform_resolution[of "''https://vimeo.com/76979871?x''"] ny v
    by (simp add: resolver_eval)
  have r3: "getVideoPlatform (Some ''https://example.com/'') = None"
    using getVideoPlatform_resolution[of "''https://example.com/''"] nn by blast
  have r4: "getVideoPlatform (Some (''https://www.'' @ ''youtube.com/watch?v='' @ ''dQw4'' @ ''&t=42'')) =
     Some \<lparr> ref_platform = YouTube, ref_id = ''dQw4'' \<rparr>"
    using getVideoPlatform_resolution[of _ "''https://www.''" "''dQw4''" "''&t=42''"
        "''youtube.com/watch?v=''"] h4
    by blast
  from y ny v nn h4 r1 r2 r3 r4 show ?thesis by blast
qed

section \<open>Properties of the catalog loader\<close>

subsection \<open>The cards of the document\<close>

lemma group_cards_simps [simp]:
  "group_cards [] = []"
  "group_cards ((c, nested) # gs) = c # nested @ group_cards gs"
  "group_cards (gs @ hs) = group_cards gs @ group_cards hs"
  by (simp_all add: group_cards_def)

lemma group_cards_map:
  "group_cards (map (\<lambda>(c, nested). (f c, map f nested)) gs) = map f (group_cards gs)"
  by (induction gs) auto

lemma animateCardsIn_fields [simp]:
  "cards_before (animateCardsIn p) = map animate_card (cards_before p)"
  "grid (animateCardsIn p) =
     map (\<lambda>(c, nested). (animate_card c, map animate_card nested)) (grid p)"
  "cards_after (animateCardsIn p) = map animate_card (cards_after p)"
  "console (animateCardsIn p) = console p"
  "requests (animateCardsIn p) = requests p"
  "alerts (animateCardsIn p) = alerts p"
  "timers (animateCardsIn p) =
     timers p @ map (\<lambda>index. (100 + index * 100, index)) [0 ..< length (document_cards p)]"
  by (simp_all add: animateCardsIn_def)

lemma document_cards_animate [simp]:
  "document_cards (animateCardsIn p) = map animate_card (document_cards p)"
  by (simp add: document_cards_def group_cards_map)

lemma start_enrichment_fields [simp]:
  "cards_before (start_enrichment p) = cards_before p"
  "grid (start_enrichment p) = grid p"
  "cards_after (start_enrichment p) = cards_after p"
  "console (start_enrichment p) = console p"
  "alerts (start_enrichment p) = alerts p"
  "timers (start_enrichment p) = timers p"
  "requests (start_enrichment p) =
     requests p @ map ViewsRequest (view_count_fetches (document_cards p))
                @ map ThumbnailRequest (vimeo_thumbnail_fetches (document_cards p))"
  "document_cards (start_enrichment p) = document_cards p"
  by (simp_all add: start_enrichment_def document_cards_def)

lemma document_cards_console [simp]:
  "document_cards (p\<lparr> console := l \<rparr>) = document_cards p"
  by (simp add: document_cards_def)

subsection \<open>The timers of the entrance animation\<close>

lemma group_cards_update:
  "group_cards (update_group_card i f gs) = (group_cards gs)[i := f (group_cards gs ! i)]"
proof (induction gs arbitrary: i)
  case Nil
  then show ?case by simp
next
  case (Cons g gs)
  obtain c nested where g: "g = (c, nested)" by (cases g)
  show ?case
  proof (cases i)
    case 0
    then show ?thesis by (simp add: g)
  next
    case (Suc j)
    show ?thesis
    proof (cases "j < length nested")
      case True
      then show ?thesis by (simp add: g Suc list_update_append nth_append)
    next
      case False
      then have "\<not> Suc j \<le> length nested" by simp
      then show ?thesis using False
        by (simp add: g Suc list_update_append nth_append Cons.IH)
    qed
  qed
qed

lemma update_in_three:
  "i < length B \<Longrightarrow>
     (B @ G @ A)[i := f ((B @ G @ A) ! i)] = B[i := f (B ! i)] @ G @ A"
  "length B \<le> i \<Longrightarrow> i < length B + length G \<Longrightarrow>
     (B @ G @ A)[i := f ((B @ G @ A) ! i)] =
       B @ G[i - length B := f (G ! (i - length B))] @ A"
  "length B + length G \<le> i \<Longrightarrow>
     (B @ G @ A)[i := f ((B @ G @ A) ! i)] =
       B @ G @ A[i - length B - length G := f (A ! (i - length B - length G))]"
proof -
  show "i < length B \<Longrightarrow>
     (B @ G @ A)[i := f ((B @ G @ A) ! i)] = B[i := f (B ! i)] @ G @ A"
    by (simp add: list_update_append nth_append)
  show "length B \<le> i \<Longrightarrow> i < length B + length G \<Longrightarrow>
     (B @ G @ A)[i := f ((B @ G @ A) ! i)] =
       B @ G[i - length B := f (G ! (i - length B))] @ A"
  proof -
    assume a: "length B \<le> i" "i < length B + length G"
    then have "i - length B < length G" by simp
    then have "(G @ A)[i - length B := f ((G @ A) ! (i - length B))] =
        G[i - length B := f (G ! (i - length B))] @ A"
      by (simp add: list_update_append nth_append)
    moreover have "(B @ G @ A)[i := f ((B @ G @ A) ! i)] =
        B @ (G @ A)[i - length B := f ((G @ A) ! (i - length B))]"
      using a(1) by (simp add: list_update_append nth_append)
    ultimately show ?thesis by simp
  qed
  show "length B + length G \<le> i \<Longrightarrow>
     (B @ G @ A)[i := f ((B @ G @ A) ! i)] =
       B @ G @ A[i - length B - length G := f (A ! (i - length B - length G))]"
  proof -
    assume a: "length B + length G \<le> i"
    then have b: "length B \<le> i" "length G \<le> i - length B" by simp_all
    have "(G @ A)[i - length B := f ((G @ A) ! (i - length B))] =
        G @ A[i - length B - length G := f (A ! (i - length B - length G))]"
      using b(2) by (simp add: list_update_append nth_append)
    moreover have "(B @ G @ A)[i := f ((B @ G @ A) ! i)] =
        B @ (G @ A)[i - length B := f ((G @ A) ! (i - length B))]"
      using b(1) by (simp add: list_update_append nth_append)
    ultimately show ?thesis by simp
  qed
qed

lemma document_cards_timer_fires:
  "document_cards (timer_fires i p) =
     (document_cards p)[i := timer_callback (document_cards p ! i)]"
proof -
  define b where "b = length (cards_before p)"
  define g where "g = length (group_cards (grid p))"
  consider "i < b" | "b \<le> i" "i < b + g" | "b + g \<le> i" "i < b + g + length (cards_after p)"
    | "b + g + length (cards_after p) \<le> i"
    by linarith
  then show ?thesis
  proof cases
    case 1
    then have "timer_fires i p =
        p\<lparr> cards_before := (cards_before p)[i := timer_callback (cards_before p ! i)] \<rparr>"
      by (simp add: timer_fires_def Let_def b_def)
    then show ?thesis
      unfolding document_cards_def using update_in_three(1)[of i "cards_before p"] 1
      by (simp add: b_def)
  next
    case 2
    then have "timer_fires i p =
        p\<lparr> grid := update_group_card (i - b) timer_callback (grid p) \<rparr>"
      by (simp add: timer_fires_def Let_def b_def g_def)
    then show ?thesis
      unfolding document_cards_def
      using update_in_three(2)[of "cards_before p" i "group_cards (grid p)"] 2
      by (simp add: b_def g_def group_cards_update)
  next
    case 3
    then have "timer_fires i p =
        p\<lparr> cards_after := (cards_after p)[i - b - g :=
                    timer_callback (cards_after p ! (i - b - g))] \<rparr>"
      by (simp add: timer_fires_def Let_def b_def g_def)
    then show ?thesis
      unfolding document_cards_def
      using update_in_three(3)[of "cards_before p" "group_cards (grid p)" i] 3
      by (simp add: b_def g_def)
  next
    case 4
    then have "length (document_cards p) \<le> i"
      by (simp add: document_cards_def b_def g_def)
    then have "(document_cards p)[i := timer_callback (document_cards p ! i)] = document_cards p"
      by (rule list_update_beyond)
    moreover from 4 have "timer_fires i p = p"
      by (simp add: timer_fires_def Let_def b_def g_def)
    ultimately show ?thesis by simp
  qed
qed

lemma fold_timer_fires:
  "document_cards (fold timer_fires ixs p) =
     fold (\<lambda>i xs. xs[i := timer_callback (xs ! i)]) ixs (document_cards p)"
  by (induction ixs arbitrary: p) (simp_all add: document_cards_timer_fires)

lemma fold_update_upt:
  "k \<le> length xs \<Longrightarrow>
     fold (\<lambda>i ys. ys[i := f (ys ! i)]) [0 ..< k] xs = map f (take k xs) @ drop k xs"
proof (induction k)
  case 0
  then show ?case by simp
next
  case (Suc k)
  then have k: "k < length xs" by simp
  then have ih: "fold (\<lambda>i ys. ys[i := f (ys ! i)]) [0 ..< k] xs = map f (take k xs) @ drop k xs"
    using Suc.IH by simp
  have d: "drop k xs = xs ! k # drop (Suc k) xs" using k by (simp add: Cons_nth_drop_Suc)
  have t: "take (Suc k) xs = take k xs @ [xs ! k]" using k by (simp add: take_Suc_conv_app_nth)
  have l: "length (map f (take k xs)) = k" using k by simp
  have "(map f (take k xs) @ drop k xs)[k := f ((map f (take k xs) @ drop k xs) ! k)] =
        map f (take k xs) @ (f (xs ! k) # drop (Suc k) xs)"
    unfolding d using l by (simp add: list_update_append nth_append)
  then show ?case by (simp add: ih t)
qed

lemma animation_timers_fire:
  assumes "document_cards q = map animate_card cs"
  shows "document_cards (fold timer_fires [0 ..< length cs] q) =
           map (\<lambda>c. c\<lparr> card_transition := ''all 0.5s ease'', card_opacity := ''1'',
                       card_transform := ''translateY(0)'' \<rparr>) cs"
proof -
  have "length cs \<le> length (map animate_card cs)" by simp
  from fold_update_upt[OF this, of timer_callback]
  show ?thesis
    by (simp add: fold_timer_fires assms timer_callback_def animate_card_def comp_def)
qed

lemma new_timer_positions:
  "map snd (drop (length ts) (ts @ map (\<lambda>index. (100 + index * 100, index)) [0 ..< n])) =
     [0 ..< n]"
  by (simp add: comp_def)

subsection \<open>The fetches of the enrichment\<close>

lemma view_count_fetches_set:
  "set (view_count_fetches cs) = {i. i < length cs \<and> card_platform (cs ! i) = Some YouTube}"
  by (auto simp: view_count_fetches_def in_set_enumerate_eq image_iff)

lemma vimeo_thumbnail_fetches_set:
  "set (vimeo_thumbnail_fetches cs) =
     {i. i < length cs \<and> card_platform (cs ! i) = Some Vimeo \<and> thumbnail_fetch_issued (cs ! i)}"
  by (auto simp: vimeo_thumbnail_fetches_def in_set_enumerate_eq image_iff)

lemma fetches_distinct:
  "distinct (view_count_fetches cs)" "distinct (vimeo_thumbnail_fetches cs)"
  by (simp_all add: view_count_fetches_def vimeo_thumbnail_fetches_def distinct_map_filter)

lemma str_includes_iff: "str_includes s t = (\<exists>pre post. s = pre @ t @ post)"
proof (induction s)
  case Nil
  then show ?case by simp
next
  case (Cons c cs)
  show ?case
  proof
    assume "str_includes (c # cs) t"
    then consider "take (length t) (c # cs) = t" | "str_includes cs t" by auto
    then show "\<exists>pre post. c # cs = pre @ t @ post"
    proof cases
      case 1
      have "c # cs = take (length t) (c # cs) @ drop (length t) (c # cs)"
        by (simp only: append_take_drop_id)
      then have "c # cs = [] @ t @ drop (length t) (c # cs)" using 1 by simp
      then show ?thesis by blast
    next
      case 2
      then obtain pre post where "cs = pre @ t @ post" using Cons.IH by blast
      then have "c # cs = (c # pre) @ t @ post" by simp
      then show ?thesis by blast
    qed
  next
    assume "\<exists>pre post. c # cs = pre @ t @ post"
    then obtain pre post where e: "c # cs = pre @ t @ post" by blast
    show "str_includes (c # cs) t"
    proof (cases pre)
      case Nil
      then have "take (length t) (c # cs) = t" using e by simp
      then show ?thesis by simp
    next
      case (Cons a pre')
      then have "cs = pre' @ t @ post" using e by simp
      then have "str_includes cs t" using Cons.IH by blast
      then show ?thesis by simp
    qed
  qed
qed

lemma thumbnail_fetch_issued_iff:
  "thumbnail_fetch_issued c =
     (\<exists>pre post. thumbnail_background c = Some (pre @ ''linear-gradient'' @ post))"
  by (cases "thumbnail_background c") (simp_all add: thumbnail_fetch_issued_def str_includes_iff)

lemma enrichment_requests:
  assumes "new = map ViewsRequest (view_count_fetches (map animate_card cs)) @
                 map ThumbnailRequest (vimeo_thumbnail_fetches (map animate_card cs))"
  shows "distinct new"
    and "\<forall>i. (ViewsRequest i \<in> set new) =
              (i < length cs \<and> card_platform (cs ! i) = Some YouTube)"
    and "\<forall>i. (ThumbnailRequest i \<in> set new) =
              (i < length cs \<and> card_platform (cs ! i) = Some Vimeo \<and>
               (\<exists>pre post. thumbnail_background (cs ! i) =
                  Some (pre @ ''linear-gradient'' @ post)))"
proof -
  show "distinct new"
    unfolding assms by (auto simp: distinct_map fetches_distinct inj_on_def)
  have pl: "\<And>c. card_platform (animate_card c) = card_platform c"
    by (simp add: animate_card_def)
  have bg: "\<And>c. thumbnail_background (animate_card c) = thumbnail_background c"
    by (simp add: animate_card_def)
  have ti: "\<And>c. thumbnail_fetch_issued (animate_card c) =
      (\<exists>pre post. thumbnail_background c = Some (pre @ ''linear-gradient'' @ post))"
    by (simp only: thumbnail_fetch_issued_iff bg)
  have v: "\<And>i. (ViewsRequest i \<in> set new) =
      (i \<in> set (view_count_fetches (map animate_card cs)))"
    unfolding assms by auto
  have t: "\<And>i. (ThumbnailRequest i \<in> set new) =
      (i \<in> set (vimeo_thumbnail_fetches (map animate_card cs)))"
    unfolding assms by auto
  show "\<forall>i. (ViewsRequest i \<in> set new) =
              (i < length cs \<and> card_platform (cs ! i) = Some YouTube)"
  proof
    fix i
    show "(ViewsRequest i \<in> set new) =
              (i < length cs \<and> card_platform (cs ! i) = Some YouTube)"
      unfolding v view_count_fetches_set using pl by (cases "i < length cs") simp_all
  qed
  show "\<forall>i. (ThumbnailRequest i \<in> set new) =
              (i < length cs \<and> card_platform (cs ! i) = Some Vimeo \<and>
               (\<exists>pre post. thumbnail_background (cs ! i) =
                  Some (pre @ ''linear-gradient'' @ post)))"
  proof
    fix i
    show "(ThumbnailRequest i \<in> set new) =
              (i < length cs \<and> card_platform (cs ! i) = Some Vimeo \<and>
               (\<exists>pre post. thumbnail_background (cs ! i) =
                  Some (pre @ ''linear-gradient'' @ post)))"
    proof (cases "i < length cs")
      case True
      then have "(ThumbnailRequest i \<in> set new) =
          (card_platform (animate_card (cs ! i)) = Some Vimeo \<and>
           thumbnail_fetch_issued (animate_card (cs ! i)))"
        unfolding t vimeo_thumbnail_fetches_set by simp
      then show ?thesis using True by (simp only: pl ti) simp
    next
      case False
      then show ?thesis unfolding t vimeo_thumbnail_fetches_set by simp
    qed
  qed
qed

subsection \<open>A failed load\<close>

lemma load_failed:
  assumes "load_try json_parse nested_cards response p = (Some e, p)"
  shows "loadVideosFromSheet json_parse nested_cards response p =
           animateCardsIn (p\<lparr> console := console p @ [LogLoadFailed e] \<rparr>)"
  using assms by (simp add: loadVideosFromSheet_def)

lemma envelope_eval1: "envelope_search ''<html>Sign in</html>'' = None"
  by (simp add: envelope_match_here_def strip_prefix_def)

lemma envelope_eval2:
  "envelope_search ''/*O_o*/ google.visualization.Query.setResponse({oops);'' = Some ''{oops''"
  by (simp add: envelope_match_here_def strip_prefix_def envelope_tail_def)

lemmas sample_cards =
  sample_page_def sample_card_def youtube_card_def vimeo_card_def document_cards_def

text \<open>
  C6, as the claim words it, does not hold: a failed load changes the cards. On a page
  with three cards the response \<open><html>Sign in</html>\<close> does not match the envelope; the
  catch block runs the entrance animation (line 219), which sets the inline opacity of
  every card to \<open>0\<close> and its transform to \<open>translateY(20px)\<close> and sets three timers.
\<close>

theorem load_failure_changes_cards:
  "envelope_search ''<html>Sign in</html>'' = None \<and>
   map card_opacity (document_cards sample_page) = [[], [], []] \<and>
   map card_transform (document_cards sample_page) = [[], [], []] \<and>
   map card_opacity (document_cards
     (loadVideosFromSheet (\<lambda>s. None) (\<lambda>c. []) (ResponseText ''<html>Sign in</html>'')
        sample_page)) = [''0'', ''0'', ''0''] \<and>
   map card_transform (document_cards
     (loadVideosFromSheet (\<lambda>s. None) (\<lambda>c. []) (ResponseText ''<html>Sign in</html>'')
        sample_page)) = [''translateY(20px)'', ''translateY(20px)'', ''translateY(20px)''] \<and>
   timers (loadVideosFromSheet (\<lambda>s. None) (\<lambda>c. []) (ResponseText ''<html>Sign in</html>'')
        sample_page) = [(100, 0), (200, 1), (300, 2)]"
proof -
  have l: "loadVideosFromSheet (\<lambda>s. None) (\<lambda>c. []) (ResponseText ''<html>Sign in</html>'')
      sample_page =
      animateCardsIn (sample_page\<lparr> console := console sample_page @
        [LogLoadFailed InvalidResponseFormat] \<rparr>)"
    by (simp add: loadVideosFromSheet_def load_try_def envelope_eval1 del: envelope_search.simps)
  have g: "document_cards sample_page = [sample_card, youtube_card, vimeo_card]"
    "timers sample_page = []"
    by (simp_all add: sample_page_def document_cards_def)
  have o: "card_opacity sample_card = []" "card_opacity youtube_card = []"
    "card_opacity vimeo_card = []" "card_transform sample_card = []"
    "card_transform youtube_card = []" "card_transform vimeo_card = []"
    by (simp_all add: sample_card_def youtube_card_def vimeo_card_def)
  show ?thesis
    unfolding l using envelope_eval1
    by (simp add: g o animate_card_def upt_rec del: envelope_search.simps)
qed

text \<open>
  C6, amended. When the response text does not match the callback envelope, or the
  payload taken from it is not valid JSON, the loader adds no card and removes none, and
  leaves the content of every card (data attributes, thumbnail, icon, title, view-count
  text) as it is. The catch block replays the entrance animation over every
  \<open>video-card\<close> element of the document (line 219): the inline opacity of each becomes
  \<open>0\<close> and its transform \<open>translateY(20px)\<close>, and for the card at position \<open>index\<close> a
  timer is set at \<open>100 + 100 * index\<close> ms; once these timers have fired every card has
  the opacity \<open>1\<close>, the transform \<open>translateY(0)\<close> and the transition
  \<open>all 0.5s ease\<close>. The failure is logged on the console (an \<open>Error\<close> for the envelope,
  a \<open>SyntaxError\<close> for the payload); no notice is shown to the user and no fetch is
  issued.
\<close>

theorem load_failure_keeps_cards:
  assumes "envelope_search text = None \<or>
           (\<exists>payload. envelope_search text = Some payload \<and> json_parse payload = None)"
  shows "let p' = loadVideosFromSheet json_parse nested_cards (ResponseText text) p;
             hidden = (\<lambda>c. c\<lparr> card_opacity := ''0'', card_transform := ''translateY(20px)'' \<rparr>);
             shown = (\<lambda>c. c\<lparr> card_transition := ''all 0.5s ease'', card_opacity := ''1'',
                              card_transform := ''translateY(0)'' \<rparr>)
         in cards_before p' = map hidden (cards_before p) \<and>
            grid p' = map (\<lambda>(c, nested). (hidden c, map hidden nested)) (grid p) \<and>
            cards_after p' = map hidden (cards_after p) \<and>
            document_cards p' = map hidden (document_cards p) \<and>
            timers p' = timers p @
              map (\<lambda>index. (100 + 100 * index, index)) [0 ..< length (document_cards p)] \<and>
            document_cards
              (fold timer_fires (map snd (drop (length (timers p)) (timers p'))) p') =
              map shown (document_cards p) \<and>
            console p' = console p @
              [LogLoadFailed (if envelope_search text = None then InvalidResponseFormat
                              else SyntaxError)] \<and>
            alerts p' = alerts p \<and>
            requests p' = requests p"
proof -
  define e where
    "e = (if envelope_search text = None then InvalidResponseFormat else SyntaxError)"
  define q where "q = animateCardsIn (p\<lparr> console := console p @ [LogLoadFailed e] \<rparr>)"
  from assms have "load_try json_parse nested_cards (ResponseText text) p = (Some e, p)"
    by (auto simp: load_try_def e_def)
  from load_failed[OF this]
  have l: "loadVideosFromSheet json_parse nested_cards (ResponseText text) p = q"
    by (simp add: q_def)
  have d: "document_cards q = map animate_card (document_cards p)"
    by (simp add: q_def)
  have t: "map snd (drop (length (timers p)) (timers q)) = [0 ..< length (document_cards p)]"
    using new_timer_positions[of "timers p" "length (document_cards p)"] by (simp add: q_def)
  have f: "document_cards (fold timer_fires (map snd (drop (length (timers p)) (timers q))) q) =
      map (\<lambda>c. c\<lparr> card_transition := ''all 0.5s ease'', card_opacity := ''1'',
                  card_transform := ''translateY(0)'' \<rparr>) (document_cards p)"
    unfolding t by (rule animation_timers_fire[OF d])
  have h: "animate_card = (\<lambda>c. c\<lparr> card_opacity := ''0'', card_transform := ''translateY(20px)'' \<rparr>)"
    by (rule ext) (simp add: animate_card_def)
  have g: "cards_before q = map animate_card (cards_before p)"
    "grid q = map (\<lambda>(c, nested). (animate_card c, map animate_card nested)) (grid p)"
    "cards_after q = map animate_card (cards_after p)"
    "timers q = timers p @
       map (\<lambda>index. (100 + 100 * index, index)) [0 ..< length (document_cards p)]"
    "console q = console p @ [LogLoadFailed e]"
    "alerts q = alerts p" "requests q = requests p"
    by (simp_all add: q_def mult.commute)
  have 1: "cards_before q =
      map (\<lambda>c. c\<lparr> card_opacity := ''0'', card_transform := ''translateY(20px)'' \<rparr>) (cards_before p)"
    "grid q = map (\<lambda>(c, nested).
        (c\<lparr> card_opacity := ''0'', card_transform := ''translateY(20px)'' \<rparr>,
         map (\<lambda>c. c\<lparr> card_opacity := ''0'', card_transform := ''translateY(20px)'' \<rparr>) nested))
        (grid p)"
    "cards_after q =
      map (\<lambda>c. c\<lparr> card_opacity := ''0'', card_transform := ''translateY(20px)'' \<rparr>) (cards_after p)"
    "document_cards q =
      map (\<lambda>c. c\<lparr> card_opacity := ''0'', card_transform := ''translateY(20px)'' \<rparr>) (document_cards p)"
    using g(1-3) d unfolding h by simp_all
  show ?thesis
    unfolding Let_def l
    by (intro conjI) (rule 1 g(4) f g(6) g(7) | simp only: g(5) e_def)+
qed

theorem load_failure_keeps_cards_witness:
  "envelope_search ''/*O_o*/ google.visualization.Query.setResponse({oops);'' = Some ''{oops'' \<and>
   (\<lambda>s. None :: table option option) ''{oops'' = None \<and>
   document_cards (loadVideosFromSheet (\<lambda>s. None) (\<lambda>c. [])
        (ResponseText ''/*O_o*/ google.visualization.Query.setResponse({oops);'') sample_page) =
     [sample_card\<lparr> card_opacity := ''0'', card_transform := ''translateY(20px)'' \<rparr>,
      youtube_card\<lparr> card_opacity := ''0'', card_transform := ''translateY(20px)'' \<rparr>,
      vimeo_card\<lparr> card_opacity := ''0'', card_transform := ''translateY(20px)'' \<rparr>] \<and>
   timers (loadVideosFromSheet (\<lambda>s. None) (\<lambda>c. [])
        (ResponseText ''/*O_o*/ google.visualization.Query.setResponse({oops);'') sample_page) =
     [(100, 0), (200, 1), (300, 2)] \<and>
   console (loadVideosFromSheet (\<lambda>s. None) (\<lambda>c. [])
        (ResponseText ''/*O_o*/ google.visualization.Query.setResponse({oops);'') sample_page) =
     [LogLoadFailed SyntaxError] \<and>
   alerts (loadVideosFromSheet (\<lambda>s. None) (\<lambda>c. [])
        (ResponseText ''/*O_o*/ google.visualization.Query.setResponse({oops);'') sample_page) = [] \<and>
   requests (loadVideosFromSheet (\<lambda>s. None) (\<lambda>c. [])
        (ResponseText ''/*O_o*/ google.visualization.Query.setResponse({oops);'') sample_page) = []"
proof -
  have g: "document_cards sample_page = [sample_card, youtube_card, vimeo_card]"
    "alerts sample_page = []" "requests sample_page = []" "timers sample_page = []"
    "console sample_page = []"
    by (simp_all add: sample_page_def document_cards_def)
  have h: "envelope_search ''/*O_o*/ google.visualization.Query.setResponse({oops);'' = None \<or>
     (\<exists>payload. envelope_search ''/*O_o*/ google.visualization.Query.setResponse({oops);'' =
        Some payload \<and> (\<lambda>s. None :: table option option) payload = None)"
    using envelope_eval2 by blast
  from load_failure_keeps_cards[OF h, of "\<lambda>c. []" sample_page] envelope_eval2
  show ?thesis by (simp add: Let_def g upt_rec)
qed

subsection \<open>A table without data rows\<close>

lemma load_succeeded:
  assumes "load_try json_parse nested_cards response p = (None, p')"
  shows "loadVideosFromSheet json_parse nested_cards response p = p'"
  using assms by (simp add: loadVideosFromSheet_def)

text \<open>
  C9. When the response parses but the table has no rows or only the header row, the
  container is not cleared: the cards of the page stay, in order, with their content
  unchanged, and nothing is logged as a failure. The entrance animation runs over every
  \<open>video-card\<close> element of the document: its opacity becomes \<open>0\<close> and its transform
  \<open>translateY(20px)\<close>, one timer per card is set at \<open>100 + 100 * index\<close> ms, and once
  these timers have fired every card has the opacity \<open>1\<close>, the transform
  \<open>translateY(0)\<close> and the transition \<open>all 0.5s ease\<close>. The enrichment issues its
  fetches for the cards that are present: a view-count fetch for exactly the cards of
  the platform YouTube, and a thumbnail fetch for exactly the Vimeo cards whose
  thumbnail background contains \<open>linear-gradient\<close>, each once.
\<close>

theorem short_table_keeps_cards:
  assumes "envelope_search text = Some payload"
    and "json_parse payload = Some (Some t)"
    and "table_rows t = None \<or> (\<exists>rows. table_rows t = Some rows \<and> length rows \<le> 1)"
  shows "let p' = loadVideosFromSheet json_parse nested_cards (ResponseText text) p;
             hidden = (\<lambda>c. c\<lparr> card_opacity := ''0'', card_transform := ''translateY(20px)'' \<rparr>);
             shown = (\<lambda>c. c\<lparr> card_transition := ''all 0.5s ease'', card_opacity := ''1'',
                              card_transform := ''translateY(0)'' \<rparr>)
         in cards_before p' = map hidden (cards_before p) \<and>
            grid p' = map (\<lambda>(c, nested). (hidden c, map hidden nested)) (grid p) \<and>
            cards_after p' = map hidden (cards_after p) \<and>
            document_cards p' = map hidden (document_cards p) \<and>
            timers p' = timers p @
              map (\<lambda>index. (100 + 100 * index, index)) [0 ..< length (document_cards p)] \<and>
            document_cards
              (fold timer_fires (map snd (drop (length (timers p)) (timers p'))) p') =
              map shown (document_cards p) \<and>
            (\<exists>cols. console p' = console p @ [LogColumns cols, LogRows]) \<and>
            alerts p' = alerts p \<and>
            (\<exists>new. requests p' = requests p @ new \<and> distinct new \<and>
               (\<forall>i. (ViewsRequest i \<in> set new) =
                  (i < length (document_cards p) \<and>
                   card_platform (document_cards p ! i) = Some YouTube)) \<and>
               (\<forall>i. (ThumbnailRequest i \<in> set new) =
                  (i < length (document_cards p) \<and>
                   card_platform (document_cards p ! i) = Some Vimeo \<and>
                   (\<exists>pre post. thumbnail_background (document_cards p ! i) =
                      Some (pre @ ''linear-gradient'' @ post)))))"
proof -
  define p1 where
    "p1 = p\<lparr> console := console p @ [LogColumns (column_names (table_cols t)), LogRows] \<rparr>"
  define q where "q = start_enrichment (animateCardsIn p1)"
  define new where
    "new = map ViewsRequest (view_count_fetches (map animate_card (document_cards p))) @
           map ThumbnailRequest (vimeo_thumbnail_fetches (map animate_card (document_cards p)))"
  from assms have "load_try json_parse nested_cards (ResponseText text) p = (None, q)"
    by (auto simp: load_try_def Let_def p1_def q_def)
  from load_succeeded[OF this]
  have l: "loadVideosFromSheet json_parse nested_cards (ResponseText text) p = q" .
  have d: "document_cards q = map animate_card (document_cards p)"
    by (simp add: q_def p1_def)
  have g: "cards_before q = map animate_card (cards_before p)"
    "grid q = map (\<lambda>(c, nested). (animate_card c, map animate_card nested)) (grid p)"
    "cards_after q = map animate_card (cards_after p)"
    "timers q = timers p @
       map (\<lambda>index. (100 + 100 * index, index)) [0 ..< length (document_cards p)]"
    "console q = console p @ [LogColumns (column_names (table_cols t)), LogRows]"
    "alerts q = alerts p"
    by (simp_all add: q_def p1_def mult.commute)
  have r: "requests q = requests p @ new"
    by (simp add: q_def p1_def new_def)
  have t: "map snd (drop (length (timers p)) (timers q)) = [0 ..< length (document_cards p)]"
    using new_timer_positions[of "timers p" "length (document_cards p)"]
    by (simp add: q_def p1_def)
  have f: "document_cards (fold timer_fires (map snd (drop (length (timers p)) (timers q))) q) =
      map (\<lambda>c. c\<lparr> card_transition := ''all 0.5s ease'', card_opacity := ''1'',
                  card_transform := ''translateY(0)'' \<rparr>) (document_cards p)"
    unfolding t by (rule animation_timers_fire[OF d])
  have h: "animate_card = (\<lambda>c. c\<lparr> card_opacity := ''0'', card_transform := ''translateY(20px)'' \<rparr>)"
    by (rule ext) (simp add: animate_card_def)
  have n: "\<exists>new. requests q = requests p @ new \<and> distinct new \<and>
               (\<forall>i. (ViewsRequest i \<in> set new) =
                  (i < length (document_cards p) \<and>
                   card_platform (document_cards p ! i) = Some YouTube)) \<and>
               (\<forall>i. (ThumbnailRequest i \<in> set new) =
                  (i < length (document_cards p) \<and>
                   card_platform (document_cards p ! i) = Some Vimeo \<and>
                   (\<exists>pre post. thumbnail_background (document_cards p ! i) =
                      Some (pre @ ''linear-gradient'' @ post))))"
    using r enrichment_requests[OF new_def] by blast
  have c: "\<exists>cols. console q = console p @ [LogColumns cols, LogRows]"
    using g(5) by blast
  have 1: "cards_before q =
      map (\<lambda>c. c\<lparr> card_opacity := ''0'', card_transform := ''translateY(20px)'' \<rparr>) (cards_before p)"
    "grid q = map (\<lambda>(c, nested).
        (c\<lparr> card_opacity := ''0'', card_transform := ''translateY(20px)'' \<rparr>,
         map (\<lambda>c. c\<lparr> card_opacity := ''0'', card_transform := ''translateY(20px)'' \<rparr>) nested))
        (grid p)"
    "cards_after q =
      map (\<lambda>c. c\<lparr> card_opacity := ''0'', card_transform := ''translateY(20px)'' \<rparr>) (cards_after p)"
    "document_cards q =
      map (\<lambda>c. c\<lparr> card_opacity := ''0'', card_transform := ''translateY(20px)'' \<rparr>) (document_cards p)"
    using g(1-3) d unfolding h by simp_all
  show ?thesis
    unfolding Let_def l
    by (intro conjI) (rule 1 g(4) f c g(6) n)+
qed

lemma sample_envelope: "envelope_search sample_text = Some ''{}''"
  by (simp add: sample_text_def envelope_match_here_def strip_prefix_def envelope_tail_def)

theorem short_table_keeps_cards_witness:
  "envelope_search sample_text = Some ''{}'' \<and>
   table_rows header_only_table = Some [sample_header] \<and>
   length [sample_header] \<le> 1 \<and>
   document_cards (loadVideosFromSheet (\<lambda>s. Some (Some header_only_table)) (\<lambda>c. [])
     (ResponseText sample_text) sample_page) =
     [sample_card\<lparr> card_opacity := ''0'', card_transform := ''translateY(20px)'' \<rparr>,
      youtube_card\<lparr> card_opacity := ''0'', card_transform := ''translateY(20px)'' \<rparr>,
      vimeo_card\<lparr> card_opacity := ''0'', card_transform := ''translateY(20px)'' \<rparr>] \<and>
   timers (loadVideosFromSheet (\<lambda>s. Some (Some header_only_table)) (\<lambda>c. [])
     (ResponseText sample_text) sample_page) = [(100, 0), (200, 1), (300, 2)] \<and>
   requests (loadVideosFromSheet (\<lambda>s. Some (Some header_only_table)) (\<lambda>c. [])
     (ResponseText sample_text) sample_page) = [ViewsRequest 1, ThumbnailRequest 2]"
proof -
  have r: "table_rows header_only_table = Some [sample_header]"
    by (simp add: header_only_table_def)
  then have h: "table_rows header_only_table = None \<or>
      (\<exists>rows. table_rows header_only_table = Some rows \<and> length rows \<le> 1)"
    by simp
  have p: "(\<lambda>s. Some (Some header_only_table)) ''{}'' = Some (Some header_only_table)" by simp
  have g: "document_cards sample_page = [sample_card, youtube_card, vimeo_card]"
    "timers sample_page = []"
    by (simp_all add: sample_page_def document_cards_def)
  have q: "requests (loadVideosFromSheet (\<lambda>s. Some (Some header_only_table)) (\<lambda>c. [])
     (ResponseText sample_text) sample_page) = [ViewsRequest 1, ThumbnailRequest 2]"
    by (simp add: loadVideosFromSheet_def load_try_def sample_envelope r Let_def
        sample_cards animate_card_def view_count_fetches_def vimeo_thumbnail_fetches_def
        thumbnail_fetch_issued_def)
  from short_table_keeps_cards[OF sample_envelope p h, of "\<lambda>c. []" sample_page] r
    sample_envelope q
  show ?thesis by (simp add: Let_def g upt_rec)
qed

subsection \<open>The rows of the table\<close>

lemma createVideoCard_text:
  assumes "url_is_text (build_video cols r)"
  shows "createVideoCard (build_video cols r) i = Inr (row_card cols (i, r))"
proof -
  from assms obtain s where s: "video_url (build_video cols r) = JStr s"
    by (auto simp: url_is_text_def split: jsval.splits)
  have "platform_of_value (JStr s) = Inr (getVideoPlatform (Some s))"
    by (simp add: platform_of_value_def getVideoPlatform_def getYouTubeId_def getVimeoId_def)
  then show ?thesis by (simp add: createVideoCard_def row_card_def s Let_def)
qed

lemma render_rows_text:
  assumes "\<forall>ir \<in> set irs. truthy (build_video cols (snd ir) ''title'') \<longrightarrow>
             url_is_text (build_video cols (snd ir))"
  shows "render_rows nested_cards cols irs p =
     (None, p\<lparr> grid := grid p @ map (\<lambda>ir. (row_card cols ir, nested_cards (row_card cols ir)))
                  (filter (\<lambda>(i, r). truthy (build_video cols r ''title'')) irs),
               console := console p @ map (\<lambda>ir. LogVideoObject (fst ir)) irs \<rparr>)"
  using assms
proof (induction irs arbitrary: p)
  case Nil
  then show ?case by simp
next
  case (Cons ir irs)
  obtain i r where ir: "ir = (i, r)" by (cases ir)
  from Cons.prems have rest: "\<forall>ir \<in> set irs. truthy (build_video cols (snd ir) ''title'') \<longrightarrow>
      url_is_text (build_video cols (snd ir))" by simp
  show ?case
  proof (cases "truthy (build_video cols r ''title'')")
    case True
    with Cons.prems ir have ut: "url_is_text (build_video cols r)" by simp
    show ?thesis
      unfolding ir using True
      by (simp add: Let_def createVideoCard_text[OF ut] Cons.IH[OF rest])
  next
    case False
    then show ?thesis
      unfolding ir by (simp add: Let_def Cons.IH[OF rest])
  qed
qed

lemma sample_columns:
  "column_names sample_cols =
     [''title'', ''tags'', ''icon'', ''views'', ''videourl'', ''thumbnail'',
         [CHR 0xE9, CHR ''t'', CHR 0xE9], ''col7'']"
proof -
  have n: "Suc (Suc (Suc (Suc (Suc (Suc (Suc 0)))))) = 7" by simp
  have s: "show_nat 7 = ''7''" by (simp add: show_nat_numeral digit_char_def)
  show ?thesis
    by (simp add: column_names_def sample_cols_def column_name_def trim_def toLowerCase_def
        to_lower_char_def upper_case_letters_def lower_case_letters_def is_space_def
        colMap_def Let_def n s)
qed

lemmas sample_rows =
  sample_table_def header_only_table_def number_url_table_def sample_header_def row_a_def
  row_b_def row_c_def row_d_def row_n_def text_cell_def

lemmas video_eval =
  build_video_def set_cell_def cell_value_def js_or_def video_url_def url_is_text_def

text \<open>
  C7, as the claim words it, does not hold for every well-formed table. In a table with
  the three data rows \<open>First vlog\<close>, \<open>Clip\<close> and \<open>Reel\<close>, each with a title, the video
  URL cell of the second row holds the number 5. \<open>createVideoCard\<close> throws a
  \<open>TypeError\<close> on that row (\<open>url.match\<close> is no function), after the container was
  cleared: one card is rendered for three rows with a title, and the failure is logged.
\<close>

theorem number_url_stops_rendering:
  "envelope_search sample_text = Some ''{}'' \<and>
   table_rows number_url_table = Some [sample_header, row_a, row_n, row_d] \<and>
   map fst (titled_rows (column_names (table_cols number_url_table)) [row_a, row_n, row_d]) =
     [0, 1, 2] \<and>
   map (\<lambda>g. card_title (fst g)) (grid (loadVideosFromSheet (\<lambda>s. Some (Some number_url_table))
     (\<lambda>c. []) (ResponseText sample_text) sample_page)) = [Some ''First vlog''] \<and>
   console (loadVideosFromSheet (\<lambda>s. Some (Some number_url_table))
     (\<lambda>c. []) (ResponseText sample_text) sample_page) =
     [LogColumns [''title'', ''tags'', ''icon'', ''views'', ''videourl'', ''thumbnail'',
         [CHR 0xE9, CHR ''t'', CHR 0xE9], ''col7''], LogRows,
      LogVideoObject 0, LogVideoObject 1, LogLoadFailed TypeError]"
proof -
  have c: "column_names (table_cols number_url_table) =
      [''title'', ''tags'', ''icon'', ''views'', ''videourl'', ''thumbnail'',
         [CHR 0xE9, CHR ''t'', CHR 0xE9], ''col7'']"
    using sample_columns by (simp add: number_url_table_def)
  have r: "table_rows number_url_table = Some [sample_header, row_a, row_n, row_d]"
    by (simp add: number_url_table_def)
  have t: "map fst (titled_rows (column_names (table_cols number_url_table))
      [row_a, row_n, row_d]) = [0, 1, 2]"
    unfolding c by (simp add: titled_rows_def sample_rows video_eval)
  have a: "createVideoCard (build_video
      [''title'', ''tags'', ''icon'', ''views'', ''videourl'', ''thumbnail'',
         [CHR 0xE9, CHR ''t'', CHR 0xE9], ''col7''] row_a) 0 =
      Inr (make_card (build_video
        [''title'', ''tags'', ''icon'', ''views'', ''videourl'', ''thumbnail'',
         [CHR 0xE9, CHR ''t'', CHR 0xE9], ''col7''] row_a) 0 (JStr [])
        None)"
    by (simp add: createVideoCard_def sample_rows video_eval platform_of_value_def)
  have n: "createVideoCard (build_video
      [''title'', ''tags'', ''icon'', ''views'', ''videourl'', ''thumbnail'',
         [CHR 0xE9, CHR ''t'', CHR 0xE9], ''col7''] row_n) (Suc 0) =
      Inl TypeError"
    by (simp add: createVideoCard_def sample_rows video_eval platform_of_value_def)
  have ta: "truthy (build_video
      [''title'', ''tags'', ''icon'', ''views'', ''videourl'', ''thumbnail'',
         [CHR 0xE9, CHR ''t'', CHR 0xE9], ''col7''] row_a ''title'')"
    "truthy (build_video
      [''title'', ''tags'', ''icon'', ''views'', ''videourl'', ''thumbnail'',
         [CHR 0xE9, CHR ''t'', CHR 0xE9], ''col7''] row_n ''title'')"
    by (simp_all add: sample_rows video_eval)
  have ca: "card_title (make_card (build_video
        [''title'', ''tags'', ''icon'', ''views'', ''videourl'', ''thumbnail'',
         [CHR 0xE9, CHR ''t'', CHR 0xE9], ''col7''] row_a) 0 (JStr [])
        None) = Some ''First vlog''"
    by (simp add: make_card_def sample_rows video_eval Let_def)
  have l: "load_try (\<lambda>s. Some (Some number_url_table)) (\<lambda>c. []) (ResponseText sample_text)
      sample_page =
      (Some TypeError,
       sample_page\<lparr> grid := [(make_card (build_video
           [''title'', ''tags'', ''icon'', ''views'', ''videourl'', ''thumbnail'',
         [CHR 0xE9, CHR ''t'', CHR 0xE9], ''col7''] row_a) 0
           (JStr []) None, [])],
         console := [LogColumns
           [''title'', ''tags'', ''icon'', ''views'', ''videourl'', ''thumbnail'',
         [CHR 0xE9, CHR ''t'', CHR 0xE9], ''col7''], LogRows,
           LogVideoObject 0, LogVideoObject 1] \<rparr>)"
    by (simp add: load_try_def sample_envelope c r Let_def a n ta sample_page_def)
  show ?thesis
    using sample_envelope r t by (simp add: loadVideosFromSheet_def l ca animate_card_def)
qed

text \<open>
  C7, amended. For a well-formed envelope whose table has a header row followed by the
  data rows \<open>data\<close>, the video URL cell of every data row with a title holding a text
  or nothing: row 0 is skipped; a data row whose record has no title, or an empty one (a
  falsy \<open>title\<close>), is dropped; every other data row is rendered as exactly one card, in
  the original order of the rows, and the container holds no other card (a card is
  followed by the \<open>video-card\<close> elements that markup in its own texts makes inside it,
  if any). The index of a row is its position among the data rows, counted from 0 and
  counting the dropped rows, that is the number of the row in the table less 1 (the
  index \<open>forEach\<close> passes to \<open>createVideoCard\<close>); a rendered card without a thumbnail
  shows the gradient at position \<open>index mod 6\<close> of the palette of 6 entries. The
  entrance animation has hidden the cards.
\<close>

theorem rows_render_in_order:
  assumes "envelope_search text = Some payload"
    and "json_parse payload = Some (Some t)"
    and "table_rows t = Some (header # data)" and "data \<noteq> []"
    and "\<forall>r \<in> set data. truthy (build_video (column_names (table_cols t)) r ''title'') \<longrightarrow>
           url_is_text (build_video (column_names (table_cols t)) r)"
  shows "let cols = column_names (table_cols t);
             hidden = (\<lambda>c. c\<lparr> card_opacity := ''0'', card_transform := ''translateY(20px)'' \<rparr>)
         in grid (loadVideosFromSheet json_parse nested_cards (ResponseText text) p) =
              map (\<lambda>ir. (hidden (row_card cols ir), map hidden (nested_cards (row_card cols ir))))
                (titled_rows cols data) \<and>
            (\<forall>ir \<in> set (titled_rows cols data).
               fst ir < length data \<and> snd ir = data ! fst ir \<and>
               createVideoCard (build_video cols (snd ir)) (fst ir) = Inr (row_card cols ir) \<and>
               (getThumbnail (video_url (build_video cols (snd ir)))
                  (build_video cols (snd ir) ''thumbnail'') = None \<longrightarrow>
                thumbnail_background (hidden (row_card cols ir)) =
                  Some (''linear-gradient(135deg, '' @ fst (FALLBACK_GRADIENTS ! (fst ir mod 6)) @
                        '', '' @ snd (FALLBACK_GRADIENTS ! (fst ir mod 6)) @ '')''))) \<and>
            length FALLBACK_GRADIENTS = 6"
proof -
  define cols where "cols = column_names (table_cols t)"
  define p1 where "p1 = p\<lparr> console := console p @ [LogColumns cols, LogRows] \<rparr>"
  have wf: "\<forall>ir \<in> set (enumerate 0 data). truthy (build_video cols (snd ir) ''title'') \<longrightarrow>
      url_is_text (build_video cols (snd ir))"
    using assms(5) by (auto simp: cols_def in_set_enumerate_eq)
  have len: "length (header # data) > 1" using assms(4) by (cases data) simp_all
  have "load_try json_parse nested_cards (ResponseText text) p =
      (None, start_enrichment (animateCardsIn
         (p1\<lparr> grid := map (\<lambda>ir. (row_card cols ir, nested_cards (row_card cols ir)))
                        (titled_rows cols data),
               console := console p1 @ map (\<lambda>ir. LogVideoObject (fst ir)) (enumerate 0 data) \<rparr>)))"
    using assms(1-3) len
    by (simp add: load_try_def Let_def cols_def[symmetric] p1_def[symmetric]
        render_rows_text[OF wf] titled_rows_def)
  from load_succeeded[OF this]
  have g: "grid (loadVideosFromSheet json_parse nested_cards (ResponseText text) p) =
           map (\<lambda>ir. (animate_card (row_card cols ir),
                      map animate_card (nested_cards (row_card cols ir))))
             (titled_rows cols data)"
    by (simp add: comp_def)
  have h: "animate_card = (\<lambda>c. c\<lparr> card_opacity := ''0'', card_transform := ''translateY(20px)'' \<rparr>)"
    by (rule ext) (simp add: animate_card_def)
  have ix: "\<forall>ir \<in> set (titled_rows cols data). fst ir < length data \<and> snd ir = data ! fst ir"
    by (auto simp: titled_rows_def in_set_enumerate_eq)
  have c: "\<forall>ir \<in> set (titled_rows cols data).
            createVideoCard (build_video cols (snd ir)) (fst ir) = Inr (row_card cols ir)"
    using wf createVideoCard_text by (auto simp: titled_rows_def)
  have th: "\<forall>ir \<in> set (titled_rows cols data).
            getThumbnail (video_url (build_video cols (snd ir)))
               (build_video cols (snd ir) ''thumbnail'') = None \<longrightarrow>
             thumbnail_background (animate_card (row_card cols ir)) =
               Some (''linear-gradient(135deg, '' @ fst (FALLBACK_GRADIENTS ! (fst ir mod 6)) @
                     '', '' @ snd (FALLBACK_GRADIENTS ! (fst ir mod 6)) @ '')'')"
    by (auto simp: row_card_def make_card_def animate_card_def gradient_background_def Let_def
        FALLBACK_GRADIENTS_def)
  have "length FALLBACK_GRADIENTS = 6" by (simp add: FALLBACK_GRADIENTS_def)
  with g ix c th show ?thesis unfolding cols_def Let_def h by blast
qed

theorem rows_render_in_order_witness:
  "envelope_search sample_text = Some ''{}'' \<and>
   table_rows sample_table = Some (sample_header # [row_a, row_b, row_c, row_d]) \<and>
   url_is_text (build_video (column_names (table_cols sample_table)) row_a) \<and>
   url_is_text (build_video (column_names (table_cols sample_table)) row_c) \<and>
   url_is_text (build_video (column_names (table_cols sample_table)) row_d) \<and>
   map fst (titled_rows (column_names (table_cols sample_table)) [row_a, row_b, row_c, row_d]) =
     [0, 2, 3] \<and>
   map (\<lambda>g. card_title (fst g)) (grid (loadVideosFromSheet (\<lambda>s. Some (Some sample_table))
     sample_browser (ResponseText sample_text) sample_page)) =
     [Some ''First vlog'', Some markup_title, Some ''Reel''] \<and>
   map (\<lambda>g. length (snd g)) (grid (loadVideosFromSheet (\<lambda>s. Some (Some sample_table))
     sample_browser (ResponseText sample_text) sample_page)) = [0, 1, 0] \<and>
   map (\<lambda>g. thumbnail_background (fst g)) (grid (loadVideosFromSheet
     (\<lambda>s. Some (Some sample_table)) sample_browser (ResponseText sample_text) sample_page)) =
     [Some ''linear-gradient(135deg, #ff6b9d, #c44dff)'',
      Some (url_background ''https://img.youtube.com/vi/abc/hqdefault.jpg''),
      Some ''linear-gradient(135deg, #4dff88, #4de1ff)'']"
proof -
  have c: "column_names (table_cols sample_table) =
      [''title'', ''tags'', ''icon'', ''views'', ''videourl'', ''thumbnail'',
         [CHR 0xE9, CHR ''t'', CHR 0xE9], ''col7'']"
    using sample_columns by (simp add: sample_table_def)
  have r: "table_rows sample_table = Some (sample_header # [row_a, row_b, row_c, row_d])"
    by (simp add: sample_table_def)
  have p: "(\<lambda>s. Some (Some sample_table)) ''{}'' = Some (Some sample_table)" by simp
  have u: "url_is_text (build_video (column_names (table_cols sample_table)) row_a)"
    "url_is_text (build_video (column_names (table_cols sample_table)) row_b)"
    "url_is_text (build_video (column_names (table_cols sample_table)) row_c)"
    "url_is_text (build_video (column_names (table_cols sample_table)) row_d)"
    unfolding c by (simp_all add: sample_rows video_eval)
  then have wf: "\<forall>r \<in> set [row_a, row_b, row_c, row_d].
      truthy (build_video (column_names (table_cols sample_table)) r ''title'') \<longrightarrow>
      url_is_text (build_video (column_names (table_cols sample_table)) r)"
    by simp
  have mt: "markup_title \<noteq> []" by (simp add: markup_title_def)
  have t: "titled_rows (column_names (table_cols sample_table)) [row_a, row_b, row_c, row_d] =
      [(0, row_a), (2, row_c), (3, row_d)]"
    unfolding c by (simp add: titled_rows_def sample_rows video_eval mt)
  have cards:
    "card_title (row_card (column_names (table_cols sample_table)) (0, row_a)) = Some ''First vlog''"
    "card_title (row_card (column_names (table_cols sample_table)) (2, row_c)) = Some markup_title"
    "card_title (row_card (column_names (table_cols sample_table)) (3, row_d)) = Some ''Reel''"
    "thumbnail_background (row_card (column_names (table_cols sample_table)) (0, row_a)) =
       Some ''linear-gradient(135deg, #ff6b9d, #c44dff)''"
    "thumbnail_background (row_card (column_names (table_cols sample_table)) (2, row_c)) =
       Some (url_background ''https://img.youtube.com/vi/abc/hqdefault.jpg'')"
    "thumbnail_background (row_card (column_names (table_cols sample_table)) (3, row_d)) =
       Some ''linear-gradient(135deg, #4dff88, #4de1ff)''"
    unfolding c
    by (simp_all add: row_card_def make_card_def sample_rows video_eval getThumbnail_def
        resolver_eval gradient_background_def FALLBACK_GRADIENTS_def Let_def mt)
  have m: "''First vlog'' \<noteq> markup_title" "''Reel'' \<noteq> markup_title"
    by (simp_all add: markup_title_def)
  from rows_render_in_order[OF sample_envelope p r _ wf, of sample_browser sample_page]
  have "grid (loadVideosFromSheet (\<lambda>s. Some (Some sample_table)) sample_browser
      (ResponseText sample_text) sample_page) =
    map (\<lambda>ir. ((row_card (column_names (table_cols sample_table)) ir)
                 \<lparr> card_opacity := ''0'', card_transform := ''translateY(20px)'' \<rparr>,
               map (\<lambda>c. c\<lparr> card_opacity := ''0'', card_transform := ''translateY(20px)'' \<rparr>)
                 (sample_browser (row_card (column_names (table_cols sample_table)) ir))))
      [(0, row_a), (2, row_c), (3, row_d)]"
    by (simp add: t Let_def)
  then show ?thesis using cards u(1,3,4) r sample_envelope t m
    by (simp add: sample_browser_def)
qed

section \<open>Properties of the metadata fetchers\<close>

text \<open>
  C2. The view-count fetch returns \<open>data.views || null\<close>. For the body
  \<open>{ "views": 0 }\<close> the request and the parse succeed and the reported count is 0, yet
  the fetch returns \<open>null\<close>, and the caller leaves the card's text (\<open>Loading...\<close>) as
  it is, although \<open>formatViews\<close> renders a count of 0 as \<open>0\<close>.
\<close>

theorem views_zero_reported_as_null:
  "fetchYouTubeViews (Json (BodyObject (VNum 0))) = VNull \<and>
   update_view_count (Json (BodyObject (VNum 0))) c = c \<and>
   formatViews (VNum 0) = ''0''"
  by (simp add: fetchYouTubeViews_def body_views_def update_view_count_def)

text \<open>
  C10. The enrichment decides by \<open>style.background.includes('linear-gradient')\<close> whether
  a card still shows the fallback. A Vimeo card rendered with the custom thumbnail
  \<open>https://cdn.example/linear-gradient.png\<close> passes that test: a thumbnail fetch is
  issued for it, and when the fetch yields a URL the custom thumbnail is overwritten.
\<close>

theorem custom_thumbnail_fetched_and_overwritten:
  "(\<exists>c. createVideoCard linear_gradient_video 0 = Inr c \<and>
        card_platform c = Some Vimeo \<and>
        thumbnail_background c =
          Some (url_background ''https://cdn.example/linear-gradient.png'') \<and>
        thumbnail_fetch_issued c \<and>
        vimeo_thumbnail_fetches [c] = [0] \<and>
        thumbnail_background
          (update_vimeo_thumbnail (ThumbJson (Some ''https://i.vimeocdn.com/v.jpg'') None) c) =
          Some (url_background ''https://i.vimeocdn.com/v.jpg''))"
  by (simp add: createVideoCard_def make_card_def video_url_def linear_gradient_video_def
      js_or_def platform_of_value_def
      getThumbnail_def resolver_eval thumbnail_fetch_issued_def url_background_def
      vimeo_thumbnail_fetches_def update_vimeo_thumbnail_def fetchVimeoThumbnail_def
      nonempty_text_def)

text \<open>
  X4. Apart from a reported count of 0, the view-count fetch does what its interface
  says: a non-zero count in the body is returned as it is; a rejected request, a body
  that is not JSON, a \<open>null\<close> body and a body without \<open>views\<close> give \<open>null\<close>. Whenever
  the fetch gives \<open>null\<close> the caller leaves the card as it is; a non-zero count replaces
  the text of the view-count line by the formatted count.
\<close>

theorem view_count_fetch_results:
  "(n \<noteq> 0 \<longrightarrow> fetchYouTubeViews (Json (BodyObject (VNum n))) = VNum n) \<and>
   fetchYouTubeViews FetchRejects = VNull \<and>
   fetchYouTubeViews JsonRejects = VNull \<and>
   fetchYouTubeViews (Json BodyNull) = VNull \<and>
   fetchYouTubeViews (Json BodyOther) = VNull \<and>
   fetchYouTubeViews (Json (BodyObject VUndefined)) = VNull \<and>
   fetchYouTubeViews (Json (BodyObject VNull)) = VNull \<and>
   (fetchYouTubeViews r = VNull \<longrightarrow> update_view_count r c = c) \<and>
   (m \<noteq> 0 \<and> view_count d = Some old \<longrightarrow>
      view_count (update_view_count (Json (BodyObject (VNum m))) d) =
        Some (star @ '' '' @ formatViews (VNum m) @ '' views''))"
  by (auto simp: fetchYouTubeViews_def body_views_def update_view_count_def Let_def)

theorem view_count_fetch_results_witness:
  "fetchYouTubeViews (Json (BodyObject (VNum 1500))) = VNum 1500 \<and>
   fetchYouTubeViews JsonRejects = VNull \<and>
   update_view_count JsonRejects sample_card = sample_card \<and>
   view_count sample_card = Some ''12 views'' \<and>
   view_count (update_view_count (Json (BodyObject (VNum 1500))) sample_card) =
     Some (star @ '' 1.5K views'')"
proof -
  have v: "view_count sample_card = Some ''12 views''" by (simp add: sample_card_def)
  from view_count_fetch_results[of 1500 JsonRejects sample_card 1500 sample_card "''12 views''"] v
  show ?thesis by (simp add: formatViews_eval)
qed

lemma take_across_separator:
  assumes "q \<notin> set pat" "pat \<noteq> []"
  shows "(take (length pat) (x @ q # y) = pat) = (take (length pat) x = pat)"
proof (cases "length pat \<le> length x")
  case True
  then show ?thesis by simp
next
  case False
  then have "take (length pat) (x @ q # y) = x @ q # take (length pat - length x - 1) y"
    by (simp add: take_Cons')
  then have "q \<in> set (take (length pat) (x @ q # y))" by simp
  with assms(1) have a: "take (length pat) (x @ q # y) \<noteq> pat" by metis
  from False have "length (take (length pat) x) < length pat" by simp
  then have "take (length pat) x \<noteq> pat" by (metis less_irrefl)
  with a show ?thesis by simp
qed

lemma str_includes_separator:
  assumes "q \<notin> set pat" "pat \<noteq> []"
  shows "str_includes (x @ q # y) pat = (str_includes x pat \<or> str_includes y pat)"
proof (induction x)
  case Nil
  have "take (length pat) (q # y) \<noteq> pat"
    using take_across_separator[OF assms, of "[]" y] assms(2) by simp
  with assms(2) show ?case by simp
next
  case (Cons c x)
  have "(take (length pat) (c # x @ q # y) = pat) = (take (length pat) (c # x) = pat)"
    using take_across_separator[OF assms, of "c # x" y] by simp
  with Cons show ?case by auto
qed

lemma url_background_includes:
  "str_includes (url_background t) ''linear-gradient'' = str_includes t ''linear-gradient''"
proof -
  have q: "CHR 0x27 \<notin> set ''linear-gradient''" "''linear-gradient'' \<noteq> []" by simp_all
  have "url_background t = ''url('' @ CHR 0x27 # (t @ CHR 0x27 # '') center/cover'')"
    by (simp add: url_background_def)
  then show ?thesis
    by (simp only: str_includes_separator[OF q]) simp
qed

text \<open>
  X5. A card rendered with a custom thumbnail whose text does not contain
  \<open>linear-gradient\<close> shows that thumbnail; the Vimeo enrichment issues no fetch for it and
  leaves the card as it is.
\<close>

theorem plain_custom_thumbnail_kept:
  assumes "truthy (video ''thumbnail'')"
    and "\<not> str_includes (js_to_string (video ''thumbnail'')) ''linear-gradient''"
    and "createVideoCard video index = Inr c"
  shows "thumbnail_background c = Some (url_background (js_to_string (video ''thumbnail''))) \<and>
         \<not> thumbnail_fetch_issued c \<and>
         update_vimeo_thumbnail r c = c \<and>
         vimeo_thumbnail_fetches [c] = [] \<and>
         updateVimeoThumbnails net [c] = [c]"
proof -
  from assms(3) obtain platform where
    c: "c = make_card video index (video_url video) platform"
    by (auto simp: createVideoCard_def Let_def split: sum.splits)
  have bg: "thumbnail_background c = Some (url_background (js_to_string (video ''thumbnail'')))"
    using assms(1) by (simp add: c make_card_def getThumbnail_def Let_def)
  then have no: "\<not> thumbnail_fetch_issued c"
    using assms(2) by (simp add: thumbnail_fetch_issued_def url_background_includes)
  then have "update_vimeo_thumbnail r c = c" for r by (simp add: update_vimeo_thumbnail_def)
  with bg no show ?thesis
    by (simp add: vimeo_thumbnail_fetches_def updateVimeoThumbnails_def)
qed

theorem plain_custom_thumbnail_kept_witness:
  "truthy (plain_thumbnail_video ''thumbnail'') \<and>
   \<not> str_includes (js_to_string (plain_thumbnail_video ''thumbnail'')) ''linear-gradient'' \<and>
   (\<exists>c. createVideoCard plain_thumbnail_video 0 = Inr c \<and> card_platform c = Some Vimeo \<and>
        thumbnail_background c = Some (url_background ''https://cdn.example/reel.png'') \<and>
        vimeo_thumbnail_fetches [c] = [] \<and>
        update_vimeo_thumbnail (ThumbJson (Some ''https://i.vimeocdn.com/v.jpg'') None) c = c)"
proof -
  have t: "truthy (plain_thumbnail_video ''thumbnail'')"
    "\<not> str_includes (js_to_string (plain_thumbnail_video ''thumbnail'')) ''linear-gradient''"
    by (simp_all add: plain_thumbnail_video_def)
  have s: "js_to_string (plain_thumbnail_video ''thumbnail'') = ''https://cdn.example/reel.png''"
    by (simp add: plain_thumbnail_video_def)
  obtain c where c: "createVideoCard plain_thumbnail_video 0 = Inr c"
    and p: "card_platform c = Some Vimeo"
    by (simp add: createVideoCard_def make_card_def video_url_def plain_thumbnail_video_def
        js_or_def platform_of_value_def resolver_eval)
  from plain_custom_thumbnail_kept[OF t c,
      of "ThumbJson (Some ''https://i.vimeocdn.com/v.jpg'') None"] c p t
  show ?thesis by (simp add: s)
qed

section \<open>Properties of the modal player\<close>

lemmas modal_eval =
  run_def showVideoPlayer_def build_modal_def modal_remove_def click_close_def
  click_backdrop_def keydown_def escHandler_def vimeo_info_arrives_def add_listener_def
  initial_browser_def Let_def

text \<open>
  C1. After a modal is closed by its close button or by its backdrop, and after it is
  replaced by opening another video, its resize and orientationchange listeners are
  gone but its \<open>keydown\<close> listener is still registered on the document: only the
  Escape path (line 512) removes it.
\<close>

theorem escape_listener_leaks:
  "document_modals (run [Open YouTube ''abc'' (JStr ''T''), ClickClose 0]
      (initial_browser 1920 1080)) = [] \<and>
   resize_listeners (run [Open YouTube ''abc'' (JStr ''T''), ClickClose 0]
      (initial_browser 1920 1080)) = [] \<and>
   orientationchange_listeners (run [Open YouTube ''abc'' (JStr ''T''), ClickClose 0]
      (initial_browser 1920 1080)) = [] \<and>
   keydown_listeners (run [Open YouTube ''abc'' (JStr ''T''), ClickClose 0]
      (initial_browser 1920 1080)) = [0] \<and>
   keydown_listeners (run [Open YouTube ''abc'' (JStr ''T''), ClickBackdrop 0]
      (initial_browser 1920 1080)) = [0] \<and>
   map modal_id (document_modals (run [Open YouTube ''abc'' (JStr ''T''),
      Open YouTube ''def'' (JStr ''U'')] (initial_browser 1920 1080))) = [1] \<and>
   keydown_listeners (run [Open YouTube ''abc'' (JStr ''T''),
      Open YouTube ''def'' (JStr ''U'')] (initial_browser 1920 1080)) = [0, 1] \<and>
   keydown_listeners (run [Open YouTube ''abc'' (JStr ''T''), KeyDown ''Escape'']
      (initial_browser 1920 1080)) = []"
  by (simp add: modal_eval)

text \<open>
  C3. A Vimeo call of \<open>showVideoPlayer\<close> looks for an existing modal before it awaits
  the video info and appends its modal after. A second call made in between finds no
  modal to remove and appends its own; when the first call resumes, two modals are in the
  document, and a later open removes only the first of them.
\<close>

theorem two_modals_after_suspended_open:
  "map modal_id (document_modals (run [Open Vimeo ''76979871'' (JStr ''T'')]
      (initial_browser 1920 1080))) = [] \<and>
   map modal_id (document_modals (run [Open Vimeo ''76979871'' (JStr ''T''),
      Open YouTube ''abc'' (JStr ''U'')] (initial_browser 1920 1080))) = [1] \<and>
   map modal_id (document_modals (run [Open Vimeo ''76979871'' (JStr ''T''),
      Open YouTube ''abc'' (JStr ''U''), VimeoInfoArrives 0 default_info]
      (initial_browser 1920 1080))) = [1, 0] \<and>
   length (document_modals (run [Open Vimeo ''76979871'' (JStr ''T''),
      Open YouTube ''abc'' (JStr ''U''), VimeoInfoArrives 0 default_info,
      Open YouTube ''def'' (JStr ''V'')] (initial_browser 1920 1080))) = 2"
  by (simp add: modal_eval)

lemma remove1_map_filter:
  "distinct (map f xs) \<Longrightarrow> remove1 m (map f xs) = map f (filter (\<lambda>x. f x \<noteq> m) xs)"
proof (induction xs)
  case Nil
  then show ?case by simp
next
  case (Cons x xs)
  from Cons.prems have "f x \<notin> f ` set xs" by simp
  then have "\<forall>y \<in> set xs. f y \<noteq> f x" by (metis image_eqI)
  then have "filter (\<lambda>y. f y \<noteq> f x) xs = xs" by simp
  with Cons show ?case by auto
qed

lemma modal_remove_invariant:
  assumes "modal_invariant b"
  shows "modal_invariant (modal_remove m b)"
    and "modal_ids (modal_remove m b) = remove1 m (modal_ids b)"
    and "keydown_listeners (modal_remove m b) = keydown_listeners b"
    and "next_call (modal_remove m b) = next_call b"
    and "pending_opens (modal_remove m b) = pending_opens b"
proof -
  from assms have d: "distinct (map modal_id (document_modals b))"
    by (simp add: modal_invariant_def modal_ids_def)
  show ids: "modal_ids (modal_remove m b) = remove1 m (modal_ids b)"
    by (simp add: modal_remove_def modal_ids_def remove1_map_filter[OF d])
  show "keydown_listeners (modal_remove m b) = keydown_listeners b"
    "next_call (modal_remove m b) = next_call b"
    "pending_opens (modal_remove m b) = pending_opens b"
    by (simp_all add: modal_remove_def)
  have "set (remove1 m (modal_ids b)) \<subseteq> set (modal_ids b)" by (rule set_remove1_subset)
  with assms show "modal_invariant (modal_remove m b)"
    unfolding modal_invariant_def ids
    by (auto simp: modal_remove_def)
qed

lemma build_modal_invariant:
  assumes "modal_invariant b" "m \<notin> set (keydown_listeners b)" "m < next_call b"
    "m \<notin> pending_id ` set (pending_opens b)"
  shows "modal_invariant (build_modal m p v t info b)"
proof -
  from assms(1,2) have fresh: "m \<notin> set (modal_ids b)"
    by (auto simp: modal_invariant_def)
  with assms show ?thesis
    by (auto simp: modal_invariant_def build_modal_def modal_ids_def add_listener_def Let_def)
qed

lemma showVideoPlayer_invariant:
  assumes "modal_invariant b"
  shows "modal_invariant (showVideoPlayer p v t b)"
proof -
  define b1 where "b1 = (case document_modals b of [] \<Rightarrow> b
     | existing # _ \<Rightarrow> modal_remove (modal_id existing) b)"
  have i1: "modal_invariant b1" and fields: "keydown_listeners b1 = keydown_listeners b"
    "next_call b1 = next_call b" "pending_opens b1 = pending_opens b"
    using modal_remove_invariant[OF assms] assms by (auto simp: b1_def split: list.splits)
  define b2 where "b2 = b1\<lparr> next_call := next_call b1 + 1 \<rparr>"
  have i2: "modal_invariant b2"
    using i1 by (auto simp: modal_invariant_def b2_def modal_ids_def less_Suc_eq)
  have fresh: "next_call b1 \<notin> set (keydown_listeners b2)" "next_call b1 < next_call b2"
    "next_call b1 \<notin> pending_id ` set (pending_opens b2)"
    using i1 by (auto simp: modal_invariant_def b2_def)
  show ?thesis
  proof (cases "p = Vimeo")
    case True
    have "modal_invariant (b2\<lparr> pending_opens := pending_opens b2 @
        [\<lparr> pending_id = next_call b1, pending_videoId = v, pending_title = t \<rparr>] \<rparr>)"
      using i2 fresh by (auto simp: modal_invariant_def modal_ids_def)
    with True show ?thesis
      by (simp add: showVideoPlayer_def b1_def[symmetric] Let_def b2_def)
  next
    case False
    from build_modal_invariant[OF i2 fresh] False show ?thesis
      by (simp add: showVideoPlayer_def b1_def[symmetric] Let_def b2_def)
  qed
qed

lemma vimeo_info_arrives_invariant:
  assumes "modal_invariant b"
  shows "modal_invariant (vimeo_info_arrives m info b)"
proof (cases "filter (\<lambda>q. pending_id q = m) (pending_opens b)")
  case Nil
  with assms show ?thesis by (simp add: vimeo_info_arrives_def)
next
  case (Cons q qs)
  then have "q \<in> set (filter (\<lambda>q. pending_id q = m) (pending_opens b))" by simp
  then have q: "q \<in> set (pending_opens b)" "pending_id q = m" by simp_all
  define b1 where "b1 = b\<lparr> pending_opens := filter (\<lambda>q. pending_id q \<noteq> m) (pending_opens b) \<rparr>"
  have i1: "modal_invariant b1"
    using assms by (auto simp: modal_invariant_def b1_def modal_ids_def distinct_map_filter)
  have fresh: "m \<notin> set (keydown_listeners b1)" "m < next_call b1"
    "m \<notin> pending_id ` set (pending_opens b1)"
    using assms q by (auto simp: modal_invariant_def b1_def)
  from build_modal_invariant[OF i1 fresh] Cons show ?thesis
    by (simp add: vimeo_info_arrives_def b1_def)
qed

lemma drop_keydown_invariant:
  assumes "modal_invariant b" "m \<notin> set (modal_ids b)"
  shows "modal_invariant (b\<lparr> keydown_listeners := remove1 m (keydown_listeners b) \<rparr>)"
proof -
  from assms(1) have d: "distinct (keydown_listeners b)" by (simp add: modal_invariant_def)
  have s: "set (remove1 m (keydown_listeners b)) = set (keydown_listeners b) - {m}"
    by (rule set_remove1_eq[OF d])
  from assms show ?thesis
    unfolding modal_invariant_def by (auto simp: s modal_ids_def)
qed

lemma escHandler_invariant:
  assumes "modal_invariant b"
  shows "modal_invariant (escHandler m key b)"
proof (cases "key = ''Escape''")
  case False
  with assms show ?thesis by (simp add: escHandler_def)
next
  case True
  note r = modal_remove_invariant[OF assms, of m]
  from assms have "distinct (modal_ids b)" by (simp add: modal_invariant_def)
  then have "m \<notin> set (modal_ids (modal_remove m b))" by (simp add: r(2))
  from drop_keydown_invariant[OF r(1) this] True show ?thesis
    by (simp add: escHandler_def Let_def)
qed

lemma keydown_invariant:
  assumes "modal_invariant b"
  shows "modal_invariant (keydown key b)"
proof -
  have "modal_invariant (fold (\<lambda>m. escHandler m key) ks b)" for ks
    using assms by (induction ks arbitrary: b) (simp_all add: escHandler_invariant)
  then show ?thesis by (simp add: keydown_def)
qed

lemma relayout_ids: "modal_ids (relayout ls b) = modal_ids b"
  by (simp add: relayout_def modal_ids_def o_def if_distrib[of modal_id])

lemma relayout_invariant:
  assumes "modal_invariant b"
  shows "modal_invariant (relayout ls (b\<lparr> innerWidth := vw, innerHeight := vh \<rparr>))"
proof -
  define b1 where "b1 = b\<lparr> innerWidth := vw, innerHeight := vh \<rparr>"
  have "modal_invariant b1" using assms by (simp add: modal_invariant_def b1_def modal_ids_def)
  moreover have "resize_listeners (relayout ls b1) = resize_listeners b1"
    "orientationchange_listeners (relayout ls b1) = orientationchange_listeners b1"
    "keydown_listeners (relayout ls b1) = keydown_listeners b1"
    "pending_opens (relayout ls b1) = pending_opens b1"
    "next_call (relayout ls b1) = next_call b1"
    by (simp_all add: relayout_def)
  ultimately show ?thesis
    unfolding b1_def[symmetric] modal_invariant_def relayout_ids by simp
qed

lemma step_invariant:
  assumes "modal_invariant b"
  shows "modal_invariant (step ev b)"
proof (cases ev)
  case (Open p v t)
  then show ?thesis using showVideoPlayer_invariant[OF assms] by simp
next
  case (VimeoInfoArrives m info)
  then show ?thesis using vimeo_info_arrives_invariant[OF assms] by simp
next
  case (ClickClose m)
  then show ?thesis using modal_remove_invariant(1)[OF assms] assms by (simp add: click_close_def)
next
  case (ClickBackdrop m)
  then show ?thesis using modal_remove_invariant(1)[OF assms] assms
    by (simp add: click_backdrop_def)
next
  case (KeyDown key)
  then show ?thesis using keydown_invariant[OF assms] by simp
next
  case (Resize vw vh)
  then show ?thesis using relayout_invariant[OF assms] by (simp add: resize_def Let_def)
next
  case (OrientationChange vw vh)
  then show ?thesis using relayout_invariant[OF assms]
    by (simp add: orientationchange_def Let_def)
qed

lemma run_invariant:
  "modal_invariant b \<Longrightarrow> modal_invariant (run evs b)"
  unfolding run_def by (induction evs arbitrary: b) (simp_all add: step_invariant)

lemma initial_invariant: "modal_invariant (initial_browser vw vh)"
  by (simp add: modal_invariant_def initial_browser_def modal_ids_def)

lemma escHandler_Escape_fields:
  assumes "modal_invariant b"
  shows "set (keydown_listeners (escHandler m ''Escape'' b)) = set (keydown_listeners b) - {m}"
    and "set (modal_ids (escHandler m ''Escape'' b)) = set (modal_ids b) - {m}"
proof -
  note r = modal_remove_invariant[OF assms, of m]
  from assms have d: "distinct (keydown_listeners b)" "distinct (modal_ids b)"
    by (simp_all add: modal_invariant_def)
  show "set (keydown_listeners (escHandler m ''Escape'' b)) = set (keydown_listeners b) - {m}"
    by (simp add: escHandler_def Let_def r(3) set_remove1_eq[OF d(1)])
  have "modal_ids (escHandler m ''Escape'' b) = modal_ids (modal_remove m b)"
    by (simp add: escHandler_def Let_def modal_ids_def)
  then show "set (modal_ids (escHandler m ''Escape'' b)) = set (modal_ids b) - {m}"
    by (simp add: r(2) set_remove1_eq[OF d(2)])
qed

lemma fold_escHandler:
  assumes "modal_invariant b"
  shows "modal_invariant (fold (\<lambda>m. escHandler m ''Escape'') ks b) \<and>
         set (keydown_listeners (fold (\<lambda>m. escHandler m ''Escape'') ks b)) =
           set (keydown_listeners b) - set ks \<and>
         set (modal_ids (fold (\<lambda>m. escHandler m ''Escape'') ks b)) = set (modal_ids b) - set ks"
  using assms
proof (induction ks arbitrary: b)
  case Nil
  then show ?case by simp
next
  case (Cons k ks)
  note i = escHandler_invariant[OF Cons.prems, of k "''Escape''"]
  from Cons.IH[OF i] escHandler_Escape_fields[OF Cons.prems, of k]
  show ?case by auto
qed

text \<open>
  X1. In every state the modal code can reach, the \<open>resize\<close> and \<open>orientationchange\<close>
  listeners registered on the window are exactly those of the modals attached to the
  document: every close path, and the replacement by another video, removes both
  listeners of the modal it detaches.
\<close>

theorem window_listeners_follow_modals:
  "resize_listeners (run evs (initial_browser vw vh)) =
     map modal_id (document_modals (run evs (initial_browser vw vh))) \<and>
   orientationchange_listeners (run evs (initial_browser vw vh)) =
     map modal_id (document_modals (run evs (initial_browser vw vh))) \<and>
   distinct (map modal_id (document_modals (run evs (initial_browser vw vh))))"
  using run_invariant[OF initial_invariant, of evs vw vh]
  by (simp add: modal_invariant_def modal_ids_def)

theorem window_listeners_follow_modals_witness:
  "resize_listeners (run [Open Vimeo ''76979871'' (JStr ''T''), Open YouTube ''abc'' (JStr ''U''),
      VimeoInfoArrives 0 default_info, ClickBackdrop 1] (initial_browser 1920 1080)) = [0] \<and>
   map modal_id (document_modals (run [Open Vimeo ''76979871'' (JStr ''T''),
      Open YouTube ''abc'' (JStr ''U''), VimeoInfoArrives 0 default_info, ClickBackdrop 1]
      (initial_browser 1920 1080))) = [0]"
  using window_listeners_follow_modals[of "[Open Vimeo ''76979871'' (JStr ''T''),
      Open YouTube ''abc'' (JStr ''U''), VimeoInfoArrives 0 default_info, ClickBackdrop 1]" 1920 1080]
  by (simp add: modal_eval)

text \<open>
  X2. Pressing Escape, in any reachable state, detaches every modal and leaves no
  \<open>resize\<close>, \<open>orientationchange\<close> or \<open>keydown\<close> listener of the modal code registered.
\<close>

theorem escape_closes_and_unregisters:
  "document_modals (run (evs @ [KeyDown ''Escape'']) (initial_browser vw vh)) = [] \<and>
   resize_listeners (run (evs @ [KeyDown ''Escape'']) (initial_browser vw vh)) = [] \<and>
   orientationchange_listeners (run (evs @ [KeyDown ''Escape'']) (initial_browser vw vh)) = [] \<and>
   keydown_listeners (run (evs @ [KeyDown ''Escape'']) (initial_browser vw vh)) = []"
proof -
  define b where "b = run evs (initial_browser vw vh)"
  define b' where "b' = keydown ''Escape'' b"
  have r: "run (evs @ [KeyDown ''Escape'']) (initial_browser vw vh) = b'"
    by (simp add: run_def b_def b'_def)
  have i: "modal_invariant b" unfolding b_def by (rule run_invariant[OF initial_invariant])
  from fold_escHandler[OF i, of "keydown_listeners b"]
  have i': "modal_invariant b'" and k: "set (keydown_listeners b') = {}"
    and m: "set (modal_ids b') = set (modal_ids b) - set (keydown_listeners b)"
    by (simp_all add: b'_def keydown_def)
  from i have "set (modal_ids b) \<subseteq> set (keydown_listeners b)" by (simp add: modal_invariant_def)
  with m have "set (modal_ids b') = {}" by auto
  then have "modal_ids b' = []" by simp
  with i' k show ?thesis unfolding r by (simp add: modal_invariant_def modal_ids_def)
qed

theorem escape_closes_and_unregisters_witness:
  "document_modals (run ([Open YouTube ''abc'' (JStr ''T''), ClickClose 0,
      Open YouTube ''def'' (JStr ''U'')] @ [KeyDown ''Escape'']) (initial_browser 1920 1080)) = [] \<and>
   keydown_listeners (run [Open YouTube ''abc'' (JStr ''T''), ClickClose 0,
      Open YouTube ''def'' (JStr ''U'')] (initial_browser 1920 1080)) = [0, 1] \<and>
   keydown_listeners (run ([Open YouTube ''abc'' (JStr ''T''), ClickClose 0,
      Open YouTube ''def'' (JStr ''U'')] @ [KeyDown ''Escape'']) (initial_browser 1920 1080)) = []"
  using escape_closes_and_unregisters[of "[Open YouTube ''abc'' (JStr ''T''), ClickClose 0,
      Open YouTube ''def'' (JStr ''U'')]" 1920 1080]
  by (simp add: modal_eval)

lemma modal_remove_single:
  "single_modal b \<Longrightarrow> single_modal (modal_remove m b)"
  by (auto simp: single_modal_def modal_remove_def intro: le_trans[OF length_filter_le])

lemma head_removed:
  assumes "modal_invariant b" "single_modal b"
  shows "document_modals (case document_modals b of [] \<Rightarrow> b
     | existing # _ \<Rightarrow> modal_remove (modal_id existing) b) = []"
proof (cases "document_modals b")
  case Nil
  then show ?thesis by simp
next
  case (Cons x xs)
  with assms(2) have "xs = []" by (simp add: single_modal_def)
  with Cons show ?thesis by (simp add: modal_remove_def)
qed

lemma open_youtube_single:
  assumes "modal_invariant b" "single_modal b" "p \<noteq> Vimeo"
  shows "single_modal (showVideoPlayer p v t b)"
proof -
  define b1 where "b1 = (case document_modals b of [] \<Rightarrow> b
     | existing # _ \<Rightarrow> modal_remove (modal_id existing) b)"
  have e: "document_modals b1 = []" unfolding b1_def by (rule head_removed[OF assms(1,2)])
  have pe: "pending_opens b1 = []"
    using assms(2) by (auto simp: b1_def single_modal_def modal_remove_def split: list.splits)
  show ?thesis
    using assms(3) e pe
    by (simp add: showVideoPlayer_def b1_def[symmetric] Let_def build_modal_def single_modal_def)
qed

lemma open_vimeo_single:
  assumes "modal_invariant b" "single_modal b"
  shows "single_modal (vimeo_info_arrives (next_call b) info (showVideoPlayer Vimeo v t b))"
proof -
  define b1 where "b1 = (case document_modals b of [] \<Rightarrow> b
     | existing # _ \<Rightarrow> modal_remove (modal_id existing) b)"
  have e: "document_modals b1 = []" unfolding b1_def by (rule head_removed[OF assms(1,2)])
  have pe: "pending_opens b1 = []" and n: "next_call b1 = next_call b"
    using assms(2) by (auto simp: b1_def single_modal_def modal_remove_def split: list.splits)
  show ?thesis
    using e pe n
    by (simp add: showVideoPlayer_def b1_def[symmetric] Let_def vimeo_info_arrives_def
        build_modal_def single_modal_def)
qed

lemma step_single:
  assumes "single_modal b" "\<And>p v t. ev \<noteq> Open p v t"
  shows "single_modal (step ev b)"
proof (cases ev)
  case (Open p v t)
  with assms(2) show ?thesis by blast
next
  case (VimeoInfoArrives m info)
  with assms(1) show ?thesis by (simp add: vimeo_info_arrives_def single_modal_def)
next
  case (ClickClose m)
  with assms(1) modal_remove_single show ?thesis by (simp add: click_close_def)
next
  case (ClickBackdrop m)
  with assms(1) modal_remove_single show ?thesis by (simp add: click_backdrop_def)
next
  case (KeyDown key)
  have "single_modal (fold (\<lambda>m. escHandler m key) ks b)" for ks
    using assms(1)
  proof (induction ks arbitrary: b)
    case Nil
    then show ?case by simp
  next
    case (Cons k ks)
    from modal_remove_single[OF Cons.prems, of k]
    have "single_modal (escHandler k key b)"
      using Cons.prems by (simp add: escHandler_def Let_def single_modal_def)
    from Cons.IH[OF this] show ?case by simp
  qed
  with KeyDown show ?thesis by (simp add: keydown_def)
next
  case (Resize vw vh)
  with assms(1) show ?thesis by (simp add: resize_def relayout_def single_modal_def Let_def)
next
  case (OrientationChange vw vh)
  with assms(1) show ?thesis
    by (simp add: orientationchange_def relayout_def single_modal_def Let_def)
qed

lemma settled_run_other:
  assumes "\<And>p v t. ev \<noteq> Open p v t"
  shows "settled_run (ev # evs) b = settled_run evs (step ev b)"
proof (cases ev)
  case (Open p v t)
  with assms show ?thesis by blast
qed simp_all

lemma settled_run_single:
  "settled_run evs b \<Longrightarrow> modal_invariant b \<Longrightarrow> single_modal b \<Longrightarrow>
     single_modal (run evs b)"
proof (induction "length evs" arbitrary: evs b rule: less_induct)
  case less
  show ?case
  proof (cases evs)
    case Nil
    with less.prems show ?thesis by (simp add: run_def)
  next
    case (Cons ev rest)
    show ?thesis
    proof (cases "\<exists>p v t. ev = Open p v t")
      case False
      then have ne: "\<And>p v t. ev \<noteq> Open p v t" by blast
      from less.prems(1) have s: "settled_run rest (step ev b)"
        unfolding Cons by (simp only: settled_run_other[OF ne])
      have i: "modal_invariant (step ev b)" by (rule step_invariant[OF less.prems(2)])
      have sm: "single_modal (step ev b)" by (rule step_single[OF less.prems(3) ne])
      have "length rest < length evs" by (simp add: Cons)
      from less.hyps[OF this s i sm] show ?thesis by (simp add: run_def Cons)
    next
      case True
      then obtain p v t where ev: "ev = Open p v t" by blast
      show ?thesis
      proof (cases "p = Vimeo")
        case True
        with less.prems(1) obtain m info evs' where
          rest: "rest = VimeoInfoArrives m info # evs'" and m: "m = next_call b"
          and s: "settled_run evs' (step (VimeoInfoArrives m info) (step (Open p v t) b))"
          unfolding Cons ev by (auto split: list.splits event.splits)
        have i: "modal_invariant (step (VimeoInfoArrives m info) (step (Open p v t) b))"
          by (intro step_invariant less.prems(2))
        have sm: "single_modal (step (VimeoInfoArrives m info) (step (Open p v t) b))"
          using open_vimeo_single[OF less.prems(2,3)] True m by simp
        have "length evs' < length evs" by (simp add: Cons rest)
        from less.hyps[OF this s i sm] show ?thesis by (simp add: run_def Cons ev rest)
      next
        case False
        with less.prems(1) have s: "settled_run rest (step (Open p v t) b)"
          unfolding Cons ev by simp
        have i: "modal_invariant (step (Open p v t) b)"
          by (intro step_invariant less.prems(2))
        have sm: "single_modal (step (Open p v t) b)"
          using open_youtube_single[OF less.prems(2,3) False] by simp
        have "length rest < length evs" by (simp add: Cons)
        from less.hyps[OF this s i sm] show ?thesis by (simp add: run_def Cons ev)
      qed
    qed
  qed
qed

text \<open>
  X3. When every Vimeo call receives its video info before the next event (no call is
  suspended while another event happens), at most one modal is in the document after
  any sequence of opens, closes, key presses and resizes.
\<close>

theorem one_modal_when_opens_settle:
  assumes "settled_run evs (initial_browser vw vh)"
  shows "length (document_modals (run evs (initial_browser vw vh))) \<le> 1"
proof -
  have "single_modal (initial_browser vw vh)" by (simp add: single_modal_def initial_browser_def)
  from settled_run_single[OF assms initial_invariant this] show ?thesis
    by (simp add: single_modal_def)
qed

theorem one_modal_when_opens_settle_witness:
  "settled_run [Open YouTube ''abc'' (JStr ''T''), Open Vimeo ''76979871'' (JStr ''U''),
      VimeoInfoArrives 1 default_info, Open YouTube ''def'' (JStr ''V'')]
      (initial_browser 1920 1080) \<and>
   length (document_modals (run [Open YouTube ''abc'' (JStr ''T''),
      Open Vimeo ''76979871'' (JStr ''U''), VimeoInfoArrives 1 default_info,
      Open YouTube ''def'' (JStr ''V'')] (initial_browser 1920 1080))) \<le> 1 \<and>
   map modal_id (document_modals (run [Open YouTube ''abc'' (JStr ''T''),
      Open Vimeo ''76979871'' (JStr ''U''), VimeoInfoArrives 1 default_info,
      Open YouTube ''def'' (JStr ''V'')] (initial_browser 1920 1080))) = [2]"
proof -
  have s: "settled_run [Open YouTube ''abc'' (JStr ''T''), Open Vimeo ''76979871'' (JStr ''U''),
      VimeoInfoArrives 1 default_info, Open YouTube ''def'' (JStr ''V'')]
      (initial_browser 1920 1080)"
    by (simp add: modal_eval)
  from one_modal_when_opens_settle[OF s] s show ?thesis by (simp add: modal_eval)
qed

end
